theory Spec2Isabelle
  imports Complex_Main
begin

section \<open>JavaScript values used by the console's utilities\<close>

text \<open>
  An optional property typed \<open>T | null\<close> (as \<open>limit?: number | null\<close>) has three
  shapes at run time: missing, \<open>null\<close>, or a value.
\<close>

datatype 'a optional = Undefined | Null | Given 'a

text \<open>The only exception the modelled functions can raise by themselves.\<close>

datatype js_error = TypeError

text \<open>\<open>Array.prototype.findIndex\<close>: the first index whose element satisfies the
  predicate, \<open>-1\<close> when there is none.\<close>

fun findIndex :: "('a \<Rightarrow> bool) \<Rightarrow> 'a list \<Rightarrow> int" where
  "findIndex p [] = -1"
| "findIndex p (x # xs) =
     (if p x then 0 else (let r = findIndex p xs in if r < 0 then -1 else r + 1))"

text \<open>\<open>Array.prototype.slice(start, end)\<close> on integer arguments: a negative argument
  counts from the end, both are clamped to the array.\<close>

definition slice :: "'a list \<Rightarrow> int \<Rightarrow> int \<Rightarrow> 'a list" where
  "slice xs s e =
     (let n = int (length xs);
          from = (if s < 0 then max (n + s) 0 else min s n);
          to = (if e < 0 then max (n + e) 0 else min e n)
      in take (nat (to - from)) (drop (nat from) xs))"

text \<open>\<open>slice(start)\<close>, the end left out.\<close>

definition sliceFrom :: "'a list \<Rightarrow> int \<Rightarrow> 'a list" where
  "sliceFrom xs s = slice xs s (int (length xs))"

text \<open>\<open>xs[k]\<close> for an integer \<open>k\<close>: \<open>undefined\<close> (here \<open>None\<close>) out of range.\<close>

definition at_index :: "'a list \<Rightarrow> int \<Rightarrow> 'a option" where
  "at_index xs k = (if 0 \<le> k \<and> k < int (length xs) then Some (xs ! nat k) else None)"

text \<open>
  JavaScript numbers are IEEE doubles. Where the result of an operation decides a
  branch, an index or a count, the model rounds it as the machine does: \<open>roundDouble\<close>
  is rounding to the nearest double, a tie going to the even significand, for numbers
  in the normal range (no overflow to infinity, no subnormals). The significand has 53
  bits, so the last place of a number between \<open>2^e\<close> and \<open>2^(e+1)\<close> is \<open>2^(e-52)\<close>.
\<close>

definition roundHalfEven :: "real \<Rightarrow> int" where
  "roundHalfEven q =
     (let f = \<lfloor>q\<rfloor>; d = q - real_of_int f
      in if d < 1 / 2 then f else if 1 / 2 < d then f + 1 else if even f then f else f + 1)"

definition roundDouble :: "real \<Rightarrow> real" where
  "roundDouble x =
     (if x = 0 then 0
      else (let e = \<lfloor>log 2 \<bar>x\<bar>\<rfloor>;
                ulp = 2 powr real_of_int (e - 52)
            in real_of_int (roundHalfEven (x / ulp)) * ulp))"

text \<open>\<open>Math.trunc\<close>, and the remainder \<open>x % m\<close> of two numbers, which takes the sign of
  the dividend and is exact in doubles. A zero divisor gives \<open>NaN\<close> and is not
  modelled.\<close>

definition jsTrunc :: "real \<Rightarrow> int" where
  "jsTrunc y = (if 0 \<le> y then \<lfloor>y\<rfloor> else \<lceil>y\<rceil>)"

definition jsRemainder :: "real \<Rightarrow> real \<Rightarrow> real" where
  "jsRemainder x m = x - m * real_of_int (jsTrunc (x / m))"

section \<open>Pagination (mock-api/msw/util.ts)\<close>

text \<open>
  \<open>paginated\<close> is generic in the item type \<open>I extends { id: string }\<close>: an extensible
  record with the field \<open>id\<close> (named \<open>item_id\<close> here, \<open>id\<close> being the identity of HOL).
  The limit is a JavaScript number; the model takes the integers.
\<close>

record item =
  item_id :: string

record paginate_options =
  limit :: "int optional"
  pageToken :: "string optional"

record 'i results_page =
  items :: "'i list"
  nextPage :: "string option"

text \<open>\<open>params.limit || 100\<close>: a missing, \<open>null\<close> or zero limit is falsy.\<close>

definition limitOrDefault :: "int optional \<Rightarrow> int" where
  "limitOrDefault l = (case l of Given n \<Rightarrow> (if n = 0 then 100 else n) | _ \<Rightarrow> 100)"

text \<open>
  \<open>pageToken ? items.findIndex((i) => i.id === pageToken) : 0\<close>, then a negative
  index replaced by 0. A missing, \<open>null\<close> or empty token is falsy.
\<close>

definition startIndexOf :: "string optional \<Rightarrow> ('a item_scheme) list \<Rightarrow> int" where
  "startIndexOf tok xs =
     (let startIndex =
        (case tok of
           Given t \<Rightarrow> (if t = [] then 0 else findIndex (\<lambda>i. item_id i = t) xs)
         | _ \<Rightarrow> 0)
      in if startIndex < 0 then 0 else startIndex)"

definition paginated ::
  "paginate_options \<Rightarrow> ('a item_scheme) list \<Rightarrow> js_error + ('a item_scheme) results_page" where
  "paginated params xs =
     (let lmt = limitOrDefault (limit params);
          startIndex = startIndexOf (pageToken params) xs
      in if startIndex > int (length xs) then Inr \<lparr>items = [], nextPage = None\<rparr>
         else if lmt + startIndex \<ge> int (length xs)
           then Inr \<lparr>items = sliceFrom xs startIndex, nextPage = None\<rparr>
         else (case at_index xs (startIndex + lmt) of
                 None \<Rightarrow> Inl TypeError
               | Some nxt \<Rightarrow>
                   Inr \<lparr>items = slice xs startIndex (startIndex + lmt),
                        nextPage = Some (item_id nxt)\<rparr>))"

text \<open>
  A client that lists a whole collection: it calls \<open>paginated\<close> without token, then
  again with each returned \<open>nextPage\<close> token until the token is \<open>null\<close>, and collects
  the slices. The fuel bounds the number of calls; \<open>None\<close> means the fuel ran out
  before a \<open>null\<close> token came back.
\<close>

fun fetchAll ::
  "nat \<Rightarrow> int optional \<Rightarrow> string optional \<Rightarrow> ('a item_scheme) list
     \<Rightarrow> (js_error + ('a item_scheme) list list) option" where
  "fetchAll 0 lmt tok xs = None"
| "fetchAll (Suc fuel) lmt tok xs =
     (case paginated \<lparr>limit = lmt, pageToken = tok\<rparr> xs of
        Inl e \<Rightarrow> Some (Inl e)
      | Inr page \<Rightarrow>
          (case nextPage page of
             None \<Rightarrow> Some (Inr [items page])
           | Some t \<Rightarrow>
               (case fetchAll fuel lmt (Given t) xs of
                  None \<Rightarrow> None
                | Some (Inl e) \<Rightarrow> Some (Inl e)
                | Some (Inr rest) \<Rightarrow> Some (Inr (items page # rest)))))"

section \<open>Role resolution (mock-api/msw/util.ts)\<close>

datatype role_key = Viewer | Collaborator | Admin

text \<open>The resource type of a role assignment is a string tag (\<open>'fleet'\<close>, \<open>'silo'\<close>,
  \<open>'project'\<close>), compared with \<open>===\<close>.\<close>

type_synonym resource_type_tag = string

record user =
  user_id :: string
  display_name :: string

record user_group =
  group_id :: string

record group_membership =
  userId :: string
  groupId :: string

record role_assignment =
  resource_type :: resource_type_tag
  resource_id :: string
  identity_id :: string
  role_name :: role_key

text \<open>The tables of the mock database that the role check reads. The source reads the
  global \<open>db\<close>; the model takes it as an argument.\<close>

record db =
  userGroups :: "user_group list"
  groupMemberships :: "group_membership list"
  roleAssignments :: "role_assignment list"

fun roleOrStronger :: "role_key \<Rightarrow> role_key list" where
  "roleOrStronger Viewer = [Viewer, Collaborator, Admin]"
| "roleOrStronger Collaborator = [Collaborator, Admin]"
| "roleOrStronger Admin = [Admin]"

text \<open>
  \<open>db.groupMemberships.filter(..).map((gm) => db.userGroups.find(..)).filter((g) => !!g)
  .map((g) => g.id)\<close>: a membership whose group is not in \<open>db.userGroups\<close> is dropped.
\<close>

definition userGroupIds :: "db \<Rightarrow> user \<Rightarrow> string list" where
  "userGroupIds d u =
     map (\<lambda>g. group_id (the g))
       (filter (\<lambda>g. g \<noteq> None)
          (map (\<lambda>gm. find (\<lambda>g. group_id g = groupId gm) (userGroups d))
             (filter (\<lambda>gm. userId gm = user_id u) (groupMemberships d))))"

definition actorsWithRole :: "db \<Rightarrow> resource_type_tag \<Rightarrow> string \<Rightarrow> role_key \<Rightarrow> string list" where
  "actorsWithRole d resourceType resourceId role =
     map identity_id
       (filter (\<lambda>ra. resource_type ra = resourceType \<and> resource_id ra = resourceId
                      \<and> role_name ra \<in> set (roleOrStronger role))
          (roleAssignments d))"

definition userHasRole :: "db \<Rightarrow> user \<Rightarrow> resource_type_tag \<Rightarrow> string \<Rightarrow> role_key \<Rightarrow> bool" where
  "userHasRole d u resourceType resourceId role =
     list_ex (\<lambda>i. i \<in> set (actorsWithRole d resourceType resourceId role))
       (user_id u # userGroupIds d u)"

section \<open>IP range containment (mock-api/msw/util.ts)\<close>

text \<open>The \<open>type\<close> field of what \<open>parseIp\<close> returns.\<close>

datatype ip_type = V4 | V6 | ParseError

record ip_range =
  first_ip :: string
  last_ip :: string

text \<open>
  \<open>ipInRange\<close> calls \<open>parseIp\<close> (app/util/ip.ts, not among the sources) and the
  constructors \<open>IPv4\<close> and \<open>IPv6\<close> of the library ip-num, whose \<open>value\<close> is the
  address as a big integer and which throw on a string they cannot read (\<open>None\<close>
  here). The three are parameters of the model.
\<close>

record ip_lib =
  parseIp :: "string \<Rightarrow> ip_type"
  IPv4_value :: "string \<Rightarrow> int option"
  IPv6_value :: "string \<Rightarrow> int option"

datatype ip_error = InvalidAddress

definition ipToBigInt :: "ip_lib \<Rightarrow> string \<Rightarrow> ip_error + int" where
  "ipToBigInt lib ip =
     (case (if parseIp lib ip = V4 then IPv4_value lib ip else IPv6_value lib ip) of
        None \<Rightarrow> Inl InvalidAddress
      | Some v \<Rightarrow> Inr v)"

text \<open>\<open>ipToBigInt(first) <= ipNum && ipNum <= ipToBigInt(last)\<close> reads the last
  endpoint only when the first comparison holds.\<close>

definition ipInRange :: "ip_lib \<Rightarrow> string \<Rightarrow> ip_range \<Rightarrow> ip_error + bool" where
  "ipInRange lib ip rng =
     (let ipIsV4 = (parseIp lib ip = V4);
          rangeIsV4 = (parseIp lib (first_ip rng) = V4)
      in if ipIsV4 \<noteq> rangeIsV4 then Inr False
         else (case ipToBigInt lib ip of
                 Inl e \<Rightarrow> Inl e
               | Inr ipNum \<Rightarrow>
                   (case ipToBigInt lib (first_ip rng) of
                      Inl e \<Rightarrow> Inl e
                    | Inr lo \<Rightarrow>
                        if lo \<le> ipNum
                        then (case ipToBigInt lib (last_ip rng) of
                                Inl e \<Rightarrow> Inl e
                              | Inr hi \<Rightarrow> Inr (ipNum \<le> hi))
                        else Inr False)))"

text \<open>\<open>ranges.some(..)\<close> stops at the first range that contains the address.\<close>

fun ipInAnyRange :: "ip_lib \<Rightarrow> string \<Rightarrow> ip_range list \<Rightarrow> ip_error + bool" where
  "ipInAnyRange lib ip [] = Inr False"
| "ipInAnyRange lib ip (rng # ranges) =
     (case ipInRange lib ip rng of
        Inl e \<Rightarrow> Inl e
      | Inr True \<Rightarrow> Inr True
      | Inr False \<Rightarrow> ipInAnyRange lib ip ranges)"

text \<open>
  The value of an address as the containment contract reads it, to compare the code
  with: an IPv4 address has the value the IPv4 reader gives it, an IPv6 address the
  value the IPv6 reader gives it, and a string that is no address has none.
\<close>

definition addressValue_spec :: "ip_lib \<Rightarrow> string \<Rightarrow> int option" where
  "addressValue_spec lib s =
     (case parseIp lib s of
        V4 \<Rightarrow> IPv4_value lib s
      | V6 \<Rightarrow> IPv6_value lib s
      | ParseError \<Rightarrow> None)"

text \<open>
  Modelled from the spec: \<open>parseIp\<close> and the value of a textual IPv4 address, which
  the sources do not hold. A textual IPv4 address is a dotted quad of four decimal
  octets, each at most 255; its value is the 32-bit number the octets spell. What makes
  a string an IPv6 address, and its value, stay parameters.
\<close>

fun split_dots :: "string \<Rightarrow> string list" where
  "split_dots [] = [[]]"
| "split_dots (c # cs) =
     (if c = CHR ''.'' then [] # split_dots cs
      else (case split_dots cs of [] \<Rightarrow> [[c]] | w # ws \<Rightarrow> (c # w) # ws))"

definition digit_of :: "char \<Rightarrow> nat option" where
  "digit_of c =
     (let n = (of_char c :: nat) in if 48 \<le> n \<and> n \<le> 57 then Some (n - 48) else None)"

fun decimal_acc :: "nat \<Rightarrow> string \<Rightarrow> nat option" where
  "decimal_acc acc [] = Some acc"
| "decimal_acc acc (c # cs) =
     (case digit_of c of None \<Rightarrow> None | Some k \<Rightarrow> decimal_acc (10 * acc + k) cs)"

definition octet_of :: "string \<Rightarrow> nat option" where
  "octet_of s =
     (if s = [] \<or> 3 < length s then None
      else (case decimal_acc 0 s of
              None \<Rightarrow> None
            | Some n \<Rightarrow> if n \<le> 255 then Some n else None))"

definition dottedQuadValue :: "string \<Rightarrow> int option" where
  "dottedQuadValue s =
     (case map octet_of (split_dots s) of
        [Some a, Some b, Some c, Some d] \<Rightarrow> Some (int (((a * 256 + b) * 256 + c) * 256 + d))
      | _ \<Rightarrow> None)"

definition textualIpLib :: "(string \<Rightarrow> bool) \<Rightarrow> (string \<Rightarrow> int option) \<Rightarrow> ip_lib" where
  "textualIpLib isIPv6 valueIPv6 =
     \<lparr>parseIp = (\<lambda>s. if dottedQuadValue s \<noteq> None then V4
                      else if isIPv6 s then V6 else ParseError),
      IPv4_value = dottedQuadValue,
      IPv6_value = valueIPv6\<rparr>"

section \<open>OxQL result shaping (app/components/oxql-metrics/util.ts)\<close>

text \<open>
  The values of timeseries and chart data are real numbers in the model: their sums,
  products and quotients are taken exactly, and \<open>NaN\<close> and the infinities are left
  out (the model says so where the source can produce one). Timestamps are milliseconds
  since the epoch (\<open>Date.getTime()\<close> of a valid date).
\<close>

text \<open>An entry of a \<open>ValueArray\<close>: a number, \<open>null\<close>, or a value of another kind
  (boolean, string, distribution), which \<open>typeof p === 'number'\<close> rejects like \<open>null\<close>.\<close>

datatype point = Number real | NullPoint | NonNumber

record value_array =
  array_values :: "point list"

record values_rec =
  values_array :: value_array

record points_rec =
  timestamps :: "int list"
  points_values :: "values_rec list"

record timeseries =
  points :: points_rec

text \<open>\<open>ts.points.values.at(0)?.values.values?.[i]\<close>: \<open>undefined\<close> (\<open>None\<close>) when the
  timeseries has no values entry or the index is past the array.\<close>

definition pointAt :: "timeseries \<Rightarrow> nat \<Rightarrow> point option" where
  "pointAt ts i =
     (case points_values (points ts) of
        [] \<Rightarrow> None
      | v # _ \<Rightarrow>
          (let arr = array_values (values_array v)
           in if i < length arr then Some (arr ! i) else None))"

fun isNumber :: "point option \<Rightarrow> bool" where
  "isNumber (Some (Number r)) = True"
| "isNumber _ = False"

fun numberOf :: "point option \<Rightarrow> real" where
  "numberOf (Some (Number r)) = r"
| "numberOf _ = 0"

definition sumValues :: "timeseries list \<Rightarrow> nat \<Rightarrow> real option list" where
  "sumValues tss arrLen =
     map (\<lambda>i. let ps = filter isNumber (map (\<lambda>ts. pointAt ts i) tss)
               in if 0 < length ps then Some (sum_list (map numberOf ps)) else None)
       [0..<arrLen]"

record chart_datum =
  timestamp :: int
  datum_value :: "real option"

text \<open>A table of a query result; \<open>table_timeseries\<close> is \<open>Object.values(table.timeseries)\<close>,
  in that order.\<close>

record oxql_table =
  table_timeseries :: "timeseries list"

record oxql_query_result =
  tables :: "oxql_table list"

record composed =
  chartData :: "chart_datum list"
  timeseriesCount :: nat

text \<open>\<open>data.tables[0].timeseries\<close> raises a TypeError when there is no table.\<close>

definition composeOxqlData :: "oxql_query_result option \<Rightarrow> js_error + composed" where
  "composeOxqlData data =
     (case data of
        None \<Rightarrow> Inr \<lparr>chartData = [], timeseriesCount = 0\<rparr>
      | Some d \<Rightarrow>
          (case tables d of
             [] \<Rightarrow> Inl TypeError
           | t # _ \<Rightarrow>
               (case table_timeseries t of
                  [] \<Rightarrow> Inr \<lparr>chartData = [], timeseriesCount = 0\<rparr>
                | ts0 # rest \<Rightarrow>
                    (let timeseriesData = ts0 # rest;
                         stamps = timestamps (points ts0);
                         summedValues = sumValues timeseriesData (length stamps)
                     in Inr \<lparr>chartData =
                              sliceFrom
                                (map (\<lambda>(t, idx). \<lparr>timestamp = t, datum_value = summedValues ! idx\<rparr>)
                                   (zip stamps [0..<length stamps])) 1,
                            timeseriesCount = length timeseriesData\<rparr>))))"

definition VCPU_KSTAT_INTERVAL_SEC :: int where
  "VCPU_KSTAT_INTERVAL_SEC = 5"

text \<open>\<open>differenceInSeconds\<close> of date-fns: the difference in milliseconds over 1000,
  truncated toward zero.\<close>

definition differenceInSeconds :: "int \<Rightarrow> int \<Rightarrow> int" where
  "differenceInSeconds later earlier =
     (let d = later - earlier in if 0 \<le> d then d div 1000 else - ((- d) div 1000))"

text \<open>
  \<open>Math.round\<close> rounds the double quotient to the nearest integer, a half upward.
  With \<open>datapoints = 0\<close> the quotient is \<open>-Infinity\<close> for a negative duration, and the
  maximum with 5 is then 5; for a positive duration it is \<open>Infinity\<close> and for a zero
  duration \<open>NaN\<close>, and so is the result: \<open>None\<close>.
\<close>

definition getMeanWithinSeconds :: "int \<Rightarrow> int \<Rightarrow> int \<Rightarrow> int option" where
  "getMeanWithinSeconds start end' datapoints =
     (let duration = differenceInSeconds end' start
      in if datapoints = 0
         then (if duration < 0 then Some VCPU_KSTAT_INTERVAL_SEC else None)
         else Some (max VCPU_KSTAT_INTERVAL_SEC
                      \<lfloor>roundDouble (real_of_int duration / real_of_int datapoints) + 1 / 2\<rfloor>))"

record time_props =
  meanWithinSeconds :: int
  adjustedStart :: int

definition getTimePropsForOxqlQuery :: "int \<Rightarrow> int \<Rightarrow> int \<Rightarrow> time_props option" where
  "getTimePropsForOxqlQuery startTime endTime datapoints =
     (case getMeanWithinSeconds startTime endTime datapoints of
        None \<Rightarrow> None
      | Some mean \<Rightarrow>
          (let secondsToAdjust = mean * 2
           in Some \<lparr>meanWithinSeconds = mean,
                    adjustedStart = startTime - secondsToAdjust * 1000\<rparr>))"

text \<open>The default of the optional third argument.\<close>

definition defaultDatapoints :: int where
  "defaultDatapoints = 60"

text \<open>\<open>data.length ? Math.max(0, ...values that are not null) : 0\<close>.\<close>

definition getLargestValue :: "chart_datum list \<Rightarrow> real" where
  "getLargestValue data =
     (if data = [] then 0
      else fold max (map the (filter (\<lambda>x. x \<noteq> None) (map datum_value data))) 0)"

text \<open>
  \<open>Math.max(Math.floor(Math.log(largestValue) / Math.log(base)), 0)\<close>. \<open>Math.log\<close>
  returns an approximation of the natural logarithm that the language leaves to the
  implementation: it is the parameter \<open>mathLog\<close>, and the quotient of its two results
  is rounded to a double. The logarithm of 0 is \<open>-Infinity\<close> and the maximum then 0. Of
  a negative number it is \<open>NaN\<close>: \<open>None\<close>. The callers pass the bases 1024 and 1000
  and a largest value that is not negative; a base of at most 1, and an implementation
  whose logarithm of the base is not positive, are not modelled (\<open>None\<close>).
\<close>

definition getMaxExponent :: "(real \<Rightarrow> real) \<Rightarrow> real \<Rightarrow> real \<Rightarrow> int option" where
  "getMaxExponent mathLog largestValue base =
     (if largestValue < 0 \<or> base \<le> 1 \<or> mathLog base \<le> 0 then None
      else if largestValue = 0 then Some 0
      else Some (max \<lfloor>roundDouble (mathLog largestValue / mathLog base)\<rfloor> 0))"

text \<open>The chart properties without the tick formatter, which is a closure over the
  browser's locale.\<close>

record oxql_metric_chart_props =
  data :: "chart_datum list"
  label :: string
  unitForSet :: "string option"

definition byteUnits :: "string list" where
  "byteUnits = [''Bytes'', ''KiB'', ''MiB'', ''GiB'', ''TiB'']"

text \<open>\<open>byteUnits[maxExponent]\<close> is \<open>undefined\<close> past TiB, and the label then spells it.\<close>

definition getBytesChartProps ::
  "(real \<Rightarrow> real) \<Rightarrow> chart_datum list \<Rightarrow> oxql_metric_chart_props option" where
  "getBytesChartProps mathLog chartData' =
     (let base = 1024;
          largestValue = getLargestValue chartData'
      in case getMaxExponent mathLog largestValue base of
           None \<Rightarrow> None
         | Some maxExponent \<Rightarrow>
             (let bytesChartDivisor = base ^ nat maxExponent;
                  unit = at_index byteUnits maxExponent
              in Some \<lparr>data = map (\<lambda>d. d\<lparr>datum_value :=
                                      (case datum_value d of
                                         Some v \<Rightarrow> Some (v / bytesChartDivisor)
                                       | None \<Rightarrow> None)\<rparr>) chartData',
                       label = ''('' @ (case unit of Some u \<Rightarrow> u | None \<Rightarrow> ''undefined'') @ '')'',
                       unitForSet = unit\<rparr>))"

definition getUtilizationChartProps :: "chart_datum list \<Rightarrow> real \<Rightarrow> oxql_metric_chart_props" where
  "getUtilizationChartProps chartData' nCPUs =
     (let divisor = real_of_int VCPU_KSTAT_INTERVAL_SEC * 1000 * 1000 * 1000 * nCPUs
      in \<lparr>data = (if divisor > 0
                   then map (\<lambda>d. \<lparr>timestamp = timestamp d,
                                   datum_value =
                                     (case datum_value d of
                                        Some v \<Rightarrow> Some ((v * 100) / divisor)
                                      | None \<Rightarrow> None)\<rparr>) chartData'
                   else []),
          label = ''(%)'',
          unitForSet = Some ''%''\<rparr>)"

section \<open>Synthetic metrics generator (mock-api/msw/util.ts)\<close>

datatype system_metric_name =
  cpus_provisioned | ram_provisioned | virtual_disk_space_provisioned

fun metricNameString :: "system_metric_name \<Rightarrow> string" where
  "metricNameString cpus_provisioned = ''cpus_provisioned''"
| "metricNameString ram_provisioned = ''ram_provisioned''"
| "metricNameString virtual_disk_space_provisioned = ''virtual_disk_space_provisioned''"

record sled =
  usable_hardware_threads :: real
  usable_physical_ram :: real

record sled_capacity_input =
  usableHardwareThreads :: real
  usablePhysicalRam :: real

record capacity =
  cpu :: real
  disk_tib :: real
  ram_gib :: real

text \<open>
  What the generator takes from outside: the clock (\<open>Date.now()\<close>, in milliseconds), the
  number \<open>Math.random()\<close> returns, and \<open>totalCapacity\<close> of the API package, which is not
  among the sources.
\<close>

record generator_env =
  now :: int
  mathRandom :: real
  totalCapacity :: "sled_capacity_input list \<Rightarrow> capacity"

text \<open>Modelled from the spec: the byte units \<open>GiB\<close> and \<open>TiB\<close> of util/units, powers
  of 1024.\<close>

definition GiB :: real where
  "GiB = 1024 ^ 3"

definition TiB :: real where
  "TiB = 1024 ^ 4"

text \<open>
  The class \<open>Rando\<close>, a linear congruential generator over doubles:
  \<open>this.seed = (this.a * this.seed + this.c) % this.m\<close>, then \<open>this.seed / this.m\<close>. The
  product and the sum are each rounded to a double (the product of the multiplier and a
  seed that is a time in milliseconds is beyond \<open>2^53\<close>), the remainder is exact, and
  the quotient is rounded.
\<close>

record rando =
  rando_a :: real
  rando_c :: real
  rando_m :: real
  rando_seed :: real

definition newRando :: "real \<Rightarrow> rando" where
  "newRando seed = \<lparr>rando_a = 1664525, rando_c = 1013904223, rando_m = 2 ^ 32, rando_seed = seed\<rparr>"

definition rando_next :: "rando \<Rightarrow> real \<times> rando" where
  "rando_next r =
     (let seed' = jsRemainder (roundDouble (roundDouble (rando_a r * rando_seed r) + rando_c r))
                    (rando_m r)
      in (roundDouble (seed' / rando_m r), r\<lparr>rando_seed := seed'\<rparr>))"

text \<open>
  The offset the loop body draws at index \<open>i\<close> from the random number: below the
  threshold (1 in the windows \<open>i < 250\<close> and \<open>500 < i < 750\<close>, 0.375 elsewhere) it is
  \<open>Math.floor(random * 50)\<close>, negated when the number is below the threshold over 2.5;
  otherwise it is 0. The product and the quotient are rounded to doubles.
\<close>

definition walkOffset :: "nat \<Rightarrow> real \<Rightarrow> real" where
  "walkOffset i random =
     (let threshold = (if i < 250 \<or> (500 < i \<and> i < 750) then 1 else 0.375 :: real)
      in if random < threshold
         then (let amount = 50; off = real_of_int \<lfloor>roundDouble (random * amount)\<rfloor>
               in if random < roundDouble (threshold / 2.5) then off * - 1 else off)
         else 0)"

text \<open>
  One round of the loop body at index \<open>i\<close>: \<open>prev\<close> is \<open>values[i - 1]\<close>, \<open>x\<close> the
  counter, and \<open>valueInterval\<close> is \<open>None\<close> when it is \<open>Infinity\<close> (an empty time range),
  which the counter never equals. The result is \<open>values[i]\<close>, the counter and the
  generator afterwards. The literal \<open>0.72\<close> is the double nearest to it, and the sum
  and the difference are rounded.
\<close>

definition walkStep :: "int option \<Rightarrow> nat \<Rightarrow> real \<Rightarrow> int \<Rightarrow> rando \<Rightarrow> real \<times> int \<times> rando" where
  "walkStep valueInterval i prev x r =
     (if Some x = valueInterval then
        (case rando_next r of
           (random, r') \<Rightarrow>
             (let offset = walkOffset i random
              in ((if random > roundDouble 0.72 then roundDouble (prev + offset)
                   else max (roundDouble (prev - offset)) 0), 0, r')))
      else (prev, x + 1, r))"

text \<open>The loop from index \<open>i\<close> for \<open>n\<close> rounds: the values it writes.\<close>

fun walk :: "int option \<Rightarrow> nat \<Rightarrow> nat \<Rightarrow> real \<Rightarrow> int \<Rightarrow> rando \<Rightarrow> real list" where
  "walk valueInterval 0 i prev x r = []"
| "walk valueInterval (Suc n) i prev x r =
     (case walkStep valueInterval i prev x r of
        (v, x', r') \<Rightarrow> v # walk valueInterval n (Suc i) v x' r')"

text \<open>\<open>Math.max(...values)\<close> of a non-empty array; of the empty one it is \<open>-Infinity\<close>
  (\<open>None\<close>).\<close>

fun mathMax :: "real list \<Rightarrow> real option" where
  "mathMax [] = None"
| "mathMax (v # vs) = Some (fold max vs v)"

definition dataCount :: nat where
  "dataCount = 1000"

text \<open>
  How far along the array the loop draws, from the length of the time range in seconds:
  \<open>timeInterval = diff / 900\<close> and \<open>valueInterval = Math.floor(dataCount / timeInterval)\<close>,
  both quotients rounded to a double. For an empty range the second is \<open>Infinity\<close>
  (\<open>None\<close>).
\<close>

definition valueIntervalOf :: "int \<Rightarrow> int option" where
  "valueIntervalOf diff =
     (let timeInterval = roundDouble (real_of_int diff / 900)
      in if timeInterval = 0 then None
         else Some \<lfloor>roundDouble (real dataCount / timeInterval)\<rfloor>)"

text \<open>The array \<open>values\<close> after the loop. The seed, a time in milliseconds plus the
  sum of the character codes of the metric name, is an integer below \<open>2^53\<close>.\<close>

definition generatedValues :: "generator_env \<Rightarrow> system_metric_name \<Rightarrow> int \<Rightarrow> int \<Rightarrow> real list" where
  "generatedValues env metricName startTime endTime =
     (let adjStartTime = max startTime (now env - 1000 * 60 * 60 * 24 * 90);
          metricNameSeed = fold (\<lambda>char acc. acc + of_char char) (metricNameString metricName) (0::int);
          r = newRando (real_of_int (adjStartTime + metricNameSeed));
          diff = \<bar>differenceInSeconds adjStartTime endTime\<bar>;
          valueInterval = valueIntervalOf diff;
          startVal = 500
      in startVal # walk valueInterval (dataCount - 1) 1 startVal 0 r)"

text \<open>The capacity of the cluster for the metric kind (\<open>cap\<close> in the source); the
  products with the byte units are rounded to doubles.\<close>

definition selectedCapacity :: "generator_env \<Rightarrow> system_metric_name \<Rightarrow> sled list \<Rightarrow> real" where
  "selectedCapacity env metricName sleds =
     (let cpty = totalCapacity env
            (map (\<lambda>s. \<lparr>usableHardwareThreads = usable_hardware_threads s,
                        usablePhysicalRam = usable_physical_ram s\<rparr>) sleds)
      in if metricName = cpus_provisioned then cpu cpty
         else if metricName = virtual_disk_space_provisioned then roundDouble (disk_tib cpty * TiB)
         else roundDouble (ram_gib cpty * GiB))"

text \<open>
  The normalisation: \<open>randomFactor = Math.random() * (1 - 0.33) + 0.33\<close> and
  \<open>(value / currentMax) * cap * randomFactor\<close>, every literal the double nearest to
  it and every operation rounded to a double. The array is never empty, so its maximum
  is a number.
\<close>

definition generateUtilization ::
  "generator_env \<Rightarrow> system_metric_name \<Rightarrow> int \<Rightarrow> int \<Rightarrow> sled list \<Rightarrow> real list" where
  "generateUtilization env metricName startTime endTime sleds =
     (let cap = selectedCapacity env metricName sleds;
          vals = generatedValues env metricName startTime endTime;
          currentMax = the (mathMax vals);
          randomFactor =
            roundDouble (roundDouble (mathRandom env * roundDouble (1 - roundDouble 0.33))
                           + roundDouble 0.33)
      in map (\<lambda>val.
                let v = roundDouble (roundDouble (roundDouble (val / currentMax) * cap) * randomFactor)
                in if metricName = cpus_provisioned then real_of_int \<lfloor>v\<rfloor> else v)
           vals)"

section \<open>Properties of rounding to a double\<close>

lemma roundHalfEven_int: "roundHalfEven (real_of_int k) = k"
  by (simp add: roundHalfEven_def)

lemma roundHalfEven_near: "\<bar>real_of_int (roundHalfEven q) - q\<bar> \<le> 1 / 2"
  unfolding roundHalfEven_def Let_def by (auto; linarith)

text \<open>Rounding, once the binade of the number is known.\<close>

lemma roundDouble_at:
  assumes "2 powr real_of_int e \<le> \<bar>x\<bar>" and "\<bar>x\<bar> < 2 powr real_of_int (e + 1)"
  shows "roundDouble x =
           real_of_int (roundHalfEven (x / 2 powr real_of_int (e - 52))) * 2 powr real_of_int (e - 52)"
proof -
  from assms(1) have nz: "x \<noteq> 0" by (auto simp: not_le [symmetric])
  then have "0 < \<bar>x\<bar>" by simp
  with assms have "\<lfloor>log 2 \<bar>x\<bar>\<rfloor> = e"
    by (subst floor_log_eq_powr_iff) simp_all
  with nz show ?thesis by (simp add: roundDouble_def Let_def)
qed

text \<open>An integer below \<open>2^53\<close> over a power of two is a double: rounding keeps it.\<close>

lemma roundDouble_dyadic:
  assumes "\<bar>n\<bar> < 2 ^ 53"
  shows "roundDouble (real_of_int n / 2 ^ k) = real_of_int n / 2 ^ k"
proof (cases "n = 0")
  case True
  then show ?thesis by (simp add: roundDouble_def)
next
  case False
  define x where "x = real_of_int n / 2 ^ k"
  define e where "e = \<lfloor>log 2 \<bar>x\<bar>\<rfloor>"
  have pos: "0 < \<bar>x\<bar>" using False by (simp add: x_def)
  have lo: "2 powr real_of_int e \<le> \<bar>x\<bar>" and hi: "\<bar>x\<bar> < 2 powr real_of_int (e + 1)"
    using floor_log_eq_powr_iff [of "\<bar>x\<bar>" 2 e] pos by (simp_all add: e_def)
  have "\<bar>real_of_int n\<bar> < 2 ^ 53" using assms by (simp flip: of_int_abs)
  then have "\<bar>x\<bar> < 2 ^ 53 / 2 ^ k" by (simp add: x_def divide_strict_right_mono)
  also have "(2::real) ^ 53 / 2 ^ k = 2 powr real_of_int (53 - int k)"
    by (simp add: powr_diff powr_realpow)
  finally have "2 powr real_of_int e < 2 powr real_of_int (53 - int k)" using lo by linarith
  from powr_less_cancel [OF this] have small: "e \<le> 52 - int k" by simp
  define j where "j = nat (52 - int k - e)"
  from small have "real_of_int (e - 52) = - real (k + j)" by (simp add: j_def)
  then have ulp: "2 powr real_of_int (e - 52) = 1 / 2 ^ (k + j)"
    by (simp only: powr_minus_divide powr_realpow zero_less_numeral)
  have "x / (1 / 2 ^ (k + j)) = real_of_int (n * 2 ^ j)" by (simp add: x_def power_add)
  then have "roundHalfEven (x / 2 powr real_of_int (e - 52)) = n * 2 ^ j"
    unfolding ulp by (simp only: roundHalfEven_int)
  with roundDouble_at [OF lo hi] ulp have "roundDouble x = x" by (simp add: x_def power_add)
  then show ?thesis by (simp add: x_def)
qed

lemma roundDouble_int: "\<bar>n\<bar> < 2 ^ 53 \<Longrightarrow> roundDouble (real_of_int n) = real_of_int n"
  using roundDouble_dyadic [of n 0] by simp

text \<open>The relative error of rounding is at most \<open>2^-53\<close>.\<close>

lemma roundDouble_near: "\<bar>roundDouble x - x\<bar> \<le> \<bar>x\<bar> / 2 ^ 53"
proof (cases "x = 0")
  case True
  then show ?thesis by (simp add: roundDouble_def)
next
  case False
  define e where "e = \<lfloor>log 2 \<bar>x\<bar>\<rfloor>"
  define ulp where "ulp = 2 powr real_of_int (e - 52)"
  have pos: "0 < \<bar>x\<bar>" using False by simp
  have lo: "2 powr real_of_int e \<le> \<bar>x\<bar>"
    using floor_log_eq_powr_iff [of "\<bar>x\<bar>" 2 e] pos by (simp add: e_def)
  have up: "0 < ulp" by (simp add: ulp_def)
  have rd: "roundDouble x = real_of_int (roundHalfEven (x / ulp)) * ulp"
    using False by (simp add: roundDouble_def Let_def e_def ulp_def)
  have "roundDouble x - x = (real_of_int (roundHalfEven (x / ulp)) - x / ulp) * ulp"
    unfolding rd using up by (simp add: field_simps)
  then have "\<bar>roundDouble x - x\<bar> = \<bar>real_of_int (roundHalfEven (x / ulp)) - x / ulp\<bar> * ulp"
    using up by (simp add: abs_mult)
  also have "\<dots> \<le> 1 / 2 * ulp"
    using roundHalfEven_near [of "x / ulp"] up by (intro mult_right_mono) simp_all
  also have "ulp = 2 powr real_of_int e / 2 ^ 52"
    by (simp add: ulp_def powr_diff)
  also have "1 / 2 * (2 powr real_of_int e / 2 ^ 52) = 2 powr real_of_int e / 2 ^ 53" by simp
  also have "\<dots> \<le> \<bar>x\<bar> / 2 ^ 53" using lo by (simp add: divide_right_mono)
  finally show ?thesis by simp
qed

text \<open>Rounding a number whose binade is given by a natural exponent.\<close>

lemma roundDouble_large:
  assumes "2 ^ a \<le> \<bar>x\<bar>" and "\<bar>x\<bar> < 2 ^ Suc a" and "52 \<le> a"
  shows "roundDouble x = real_of_int (roundHalfEven (x / 2 ^ (a - 52))) * 2 ^ (a - 52)"
proof -
  have lo: "2 powr real_of_int (int a) \<le> \<bar>x\<bar>"
    using assms(1) by (simp add: powr_realpow)
  have "real_of_int (int a + 1) = real (Suc a)" by simp
  then have hi: "\<bar>x\<bar> < 2 powr real_of_int (int a + 1)"
    using assms(2) by (simp only: powr_realpow zero_less_numeral)
  from assms(3) have "real_of_int (int a - 52) = real (a - 52)" by simp
  then have "2 powr real_of_int (int a - 52) = 2 ^ (a - 52)"
    by (simp only: powr_realpow zero_less_numeral)
  with roundDouble_at [OF lo hi] show ?thesis by simp
qed

lemma roundDouble_small:
  assumes "2 ^ a \<le> \<bar>x\<bar>" and "\<bar>x\<bar> < 2 ^ Suc a" and "a \<le> 52"
  shows "roundDouble x = real_of_int (roundHalfEven (x * 2 ^ (52 - a))) / 2 ^ (52 - a)"
proof -
  have lo: "2 powr real_of_int (int a) \<le> \<bar>x\<bar>"
    using assms(1) by (simp add: powr_realpow)
  have "real_of_int (int a + 1) = real (Suc a)" by simp
  then have hi: "\<bar>x\<bar> < 2 powr real_of_int (int a + 1)"
    using assms(2) by (simp only: powr_realpow zero_less_numeral)
  from assms(3) have "real_of_int (int a - 52) = - real (52 - a)" by simp
  then have "2 powr real_of_int (int a - 52) = 1 / 2 ^ (52 - a)"
    by (simp only: powr_minus_divide powr_realpow zero_less_numeral)
  with roundDouble_at [OF lo hi] show ?thesis by simp
qed

lemma roundDouble_frac:
  assumes "1 \<le> \<bar>x\<bar> * 2 ^ k" and "\<bar>x\<bar> * 2 ^ k < 2"
  shows "roundDouble x = real_of_int (roundHalfEven (x * 2 ^ (52 + k))) / 2 ^ (52 + k)"
proof -
  have p: "2 powr real_of_int (- int k) = 1 / 2 ^ k"
    by (simp add: powr_minus_divide powr_realpow)
  have lo: "2 powr real_of_int (- int k) \<le> \<bar>x\<bar>"
    unfolding p using assms(1) by (simp add: field_simps)
  have "real_of_int (- int k + 1) = real_of_int (- int k) + 1" by simp
  then have "2 powr real_of_int (- int k + 1) = 2 powr real_of_int (- int k) * 2"
    by (simp only: powr_add powr_one zero_less_numeral less_imp_le)
  then have top: "2 powr real_of_int (- int k + 1) = 2 / 2 ^ k"
    by (simp only: p times_divide_eq_left mult_1)
  have "\<bar>x\<bar> < 2 / 2 ^ k" using assms(2) by (simp add: pos_less_divide_eq)
  then have hi: "\<bar>x\<bar> < 2 powr real_of_int (- int k + 1)"
    by (simp only: top)
  have "real_of_int (- int k - 52) = - real (52 + k)" by simp
  then have "2 powr real_of_int (- int k - 52) = 1 / 2 ^ (52 + k)"
    by (simp only: powr_minus_divide powr_realpow zero_less_numeral)
  with roundDouble_at [OF lo hi] show ?thesis by simp
qed

text \<open>Rounding keeps the order and the sign of numbers that are not negative, and
  commutes with a power of two.\<close>

lemma roundHalfEven_bounds: "\<lfloor>q\<rfloor> \<le> roundHalfEven q" "roundHalfEven q \<le> \<lceil>q\<rceil>"
proof -
  show "\<lfloor>q\<rfloor> \<le> roundHalfEven q" by (simp add: roundHalfEven_def Let_def)
  have "\<lfloor>q\<rfloor> + 1 \<le> \<lceil>q\<rceil>" if "q - real_of_int \<lfloor>q\<rfloor> \<noteq> 0"
    using that by (simp add: ceiling_altdef)
  moreover have "\<lfloor>q\<rfloor> \<le> \<lceil>q\<rceil>" by (rule floor_le_ceiling)
  ultimately show "roundHalfEven q \<le> \<lceil>q\<rceil>"
    by (auto simp: roundHalfEven_def Let_def)
qed

lemma roundHalfEven_mono: "q \<le> q' \<Longrightarrow> roundHalfEven q \<le> roundHalfEven q'"
proof -
  assume le: "q \<le> q'"
  then have fl: "\<lfloor>q\<rfloor> \<le> \<lfloor>q'\<rfloor>" by (rule floor_mono)
  show ?thesis
  proof (cases "\<lfloor>q\<rfloor> = \<lfloor>q'\<rfloor>")
    case True
    with le show ?thesis by (auto simp: roundHalfEven_def Let_def)
  next
    case False
    with fl have "\<lfloor>q\<rfloor> + 1 \<le> \<lfloor>q'\<rfloor>" by simp
    moreover have "roundHalfEven q \<le> \<lfloor>q\<rfloor> + 1" by (simp add: roundHalfEven_def Let_def)
    ultimately show ?thesis using roundHalfEven_bounds(1) [of q'] by linarith
  qed
qed

lemma roundDouble_nonneg: "0 \<le> x \<Longrightarrow> 0 \<le> roundDouble x"
proof -
  assume "0 \<le> x"
  then have "0 \<le> x / 2 powr real_of_int (\<lfloor>log 2 \<bar>x\<bar>\<rfloor> - 52)" by simp
  then have "0 \<le> \<lfloor>x / 2 powr real_of_int (\<lfloor>log 2 \<bar>x\<bar>\<rfloor> - 52)\<rfloor>" by simp
  with roundHalfEven_bounds(1) [of "x / 2 powr real_of_int (\<lfloor>log 2 \<bar>x\<bar>\<rfloor> - 52)"]
  have "0 \<le> roundHalfEven (x / 2 powr real_of_int (\<lfloor>log 2 \<bar>x\<bar>\<rfloor> - 52))" by linarith
  then show ?thesis by (simp add: roundDouble_def Let_def)
qed

lemma roundDouble_binade:
  assumes "0 < x" and "e = \<lfloor>log 2 x\<rfloor>"
  shows "2 powr real_of_int e \<le> roundDouble x" and "roundDouble x \<le> 2 powr real_of_int (e + 1)"
proof -
  define u where "u = 2 powr real_of_int (e - 52)"
  have up: "0 < u" by (simp add: u_def)
  have lo: "2 powr real_of_int e \<le> x" and hi: "x < 2 powr real_of_int (e + 1)"
    using floor_log_eq_powr_iff [of x 2 e] assms by simp_all
  have rd: "roundDouble x = real_of_int (roundHalfEven (x / u)) * u"
    using assms by (simp add: roundDouble_def Let_def u_def)
  have elo: "2 powr real_of_int e = 2 ^ 52 * u"
    by (simp add: u_def powr_diff)
  have ehi: "2 powr real_of_int (e + 1) = 2 ^ 53 * u"
    by (simp add: u_def powr_diff powr_add)
  from lo up have "2 ^ 52 \<le> x / u" unfolding elo by (simp add: pos_le_divide_eq)
  then have "(2::int) ^ 52 \<le> \<lfloor>x / u\<rfloor>" by (simp add: le_floor_iff)
  with roundHalfEven_bounds(1) [of "x / u"] have "(2::int) ^ 52 \<le> roundHalfEven (x / u)"
    by linarith
  then have "(2::real) ^ 52 \<le> real_of_int (roundHalfEven (x / u))"
    by (metis of_int_le_iff of_int_numeral of_int_power)
  with up show "2 powr real_of_int e \<le> roundDouble x"
    unfolding rd elo by (intro mult_right_mono) simp_all
  from hi up have "x / u \<le> 2 ^ 53" unfolding ehi by (simp add: pos_divide_le_eq)
  then have "\<lceil>x / u\<rceil> \<le> (2::int) ^ 53" by (simp add: ceiling_le_iff)
  with roundHalfEven_bounds(2) [of "x / u"] have "roundHalfEven (x / u) \<le> (2::int) ^ 53"
    by linarith
  then have "real_of_int (roundHalfEven (x / u)) \<le> (2::real) ^ 53"
    by (metis of_int_le_iff of_int_numeral of_int_power)
  with up show "roundDouble x \<le> 2 powr real_of_int (e + 1)"
    unfolding rd ehi by (intro mult_right_mono) simp_all
qed

lemma roundDouble_mono:
  assumes "0 \<le> x" and "x \<le> y"
  shows "roundDouble x \<le> roundDouble y"
proof (cases "x = 0")
  case True
  with assms roundDouble_nonneg [of y] show ?thesis by (simp add: roundDouble_def)
next
  case False
  with assms have x: "0 < x" and y: "0 < y" by simp_all
  define e where "e = \<lfloor>log 2 x\<rfloor>"
  define e' where "e' = \<lfloor>log 2 y\<rfloor>"
  from x y assms(2) have "log 2 x \<le> log 2 y" by simp
  then have ee: "e \<le> e'" unfolding e_def e'_def by (rule floor_mono)
  show ?thesis
  proof (cases "e = e'")
    case True
    define u where "u = 2 powr real_of_int (e - 52)"
    have up: "0 < u" by (simp add: u_def)
    from assms(2) up have "x / u \<le> y / u" by (simp add: divide_right_mono)
    then have "real_of_int (roundHalfEven (x / u)) \<le> real_of_int (roundHalfEven (y / u))"
      using roundHalfEven_mono by simp
    with up have "real_of_int (roundHalfEven (x / u)) * u \<le> real_of_int (roundHalfEven (y / u)) * u"
      by (intro mult_right_mono) simp_all
    with x y True show ?thesis
      by (simp add: roundDouble_def Let_def u_def e_def e'_def)
  next
    case False
    with ee have "e + 1 \<le> e'" by simp
    then have "2 powr real_of_int (e + 1) \<le> (2::real) powr real_of_int e'" by simp
    with roundDouble_binade(2) [OF x e_def] roundDouble_binade(1) [OF y e'_def]
    show ?thesis by linarith
  qed
qed

lemma roundDouble_scale: "roundDouble (x * 2 ^ k) = roundDouble x * 2 ^ k"
proof (cases "x = 0")
  case True
  then show ?thesis by (simp add: roundDouble_def)
next
  case False
  have "log 2 (\<bar>x\<bar> * 2 ^ k) = log 2 \<bar>x\<bar> + real k"
    using False by (simp add: log_mult log_nat_power)
  then have "\<lfloor>log 2 \<bar>x * 2 ^ k\<bar>\<rfloor> = \<lfloor>log 2 \<bar>x\<bar>\<rfloor> + int k"
    by (simp add: abs_mult)
  moreover have "2 powr real_of_int (\<lfloor>log 2 \<bar>x\<bar>\<rfloor> + int k - 52)
                   = 2 powr real_of_int (\<lfloor>log 2 \<bar>x\<bar>\<rfloor> - 52) * 2 ^ k"
    by (simp add: powr_add powr_diff powr_realpow)
  ultimately show ?thesis using False by (simp add: roundDouble_def Let_def)
qed

section \<open>Properties of pagination\<close>

subsection \<open>The default limit\<close>

text \<open>
  C10. A limit of 0 and a limit of \<open>null\<close> behave as no limit at all: the falsy limit
  is replaced by the default of 100, so a call without token returns the first up to
  100 items and not an empty page.
\<close>

theorem paginated_falsy_limit_is_default:
  "paginated \<lparr>limit = Given 0, pageToken = tok\<rparr> xs
     = paginated \<lparr>limit = Undefined, pageToken = tok\<rparr> xs
   \<and> paginated \<lparr>limit = Null, pageToken = tok\<rparr> xs
     = paginated \<lparr>limit = Undefined, pageToken = tok\<rparr> xs
   \<and> paginated \<lparr>limit = Undefined, pageToken = tok\<rparr> xs
     = paginated \<lparr>limit = Given 100, pageToken = tok\<rparr> xs
   \<and> map_sum (\<lambda>e. e) items (paginated \<lparr>limit = Given 0, pageToken = Undefined\<rparr> xs)
     = Inr (take 100 xs)"
  by (simp add: paginated_def limitOrDefault_def startIndexOf_def sliceFrom_def slice_def
      at_index_def)

subsection \<open>Where a page starts\<close>

lemma findIndex_bounds: "- 1 \<le> findIndex p xs \<and> findIndex p xs < int (length xs)"
  by (induction xs) (auto simp: Let_def)

lemma findIndex_none: "(\<forall>x\<in>set xs. \<not> p x) \<Longrightarrow> findIndex p xs = - 1"
  by (induction xs) (auto simp: Let_def)

lemma findIndex_distinct:
  "distinct (map f xs) \<Longrightarrow> k < length xs \<Longrightarrow> findIndex (\<lambda>i. f i = f (xs ! k)) xs = int k"
proof (induction xs arbitrary: k)
  case Nil
  then show ?case by simp
next
  case (Cons x xs)
  show ?case
  proof (cases k)
    case 0
    then show ?thesis by simp
  next
    case (Suc j)
    with Cons.prems have j: "j < length xs" and d: "distinct (map f xs)"
      and nx: "f x \<notin> f ` set xs" by auto
    from j nx have "f x \<noteq> f (xs ! j)" by (metis imageI nth_mem)
    moreover from Cons.IH [OF d j] have "findIndex (\<lambda>i. f i = f (xs ! j)) xs = int j" .
    ultimately show ?thesis using Suc by (simp add: Let_def)
  qed
qed

lemma startIndexOf_falsy:
  "startIndexOf Undefined xs = 0" "startIndexOf Null xs = 0" "startIndexOf (Given []) xs = 0"
  by (simp_all add: startIndexOf_def)

lemma startIndexOf_unmatched:
  "t \<notin> set (map item_id xs) \<Longrightarrow> startIndexOf (Given t) xs = 0"
proof -
  assume "t \<notin> set (map item_id xs)"
  then have "findIndex (\<lambda>i. item_id i = t) xs = - 1"
    by (intro findIndex_none) auto
  then show ?thesis by (simp add: startIndexOf_def Let_def)
qed

lemma startIndexOf_token:
  "distinct (map item_id xs) \<Longrightarrow> k < length xs \<Longrightarrow> item_id (xs ! k) \<noteq> []
     \<Longrightarrow> startIndexOf (Given (item_id (xs ! k))) xs = int k"
  using findIndex_distinct [of item_id xs k]
  by (simp add: startIndexOf_def Let_def)

lemma startIndexOf_range:
  "\<exists>s. startIndexOf tok xs = int s \<and> s \<le> length xs"
proof -
  have "0 \<le> startIndexOf tok xs \<and> startIndexOf tok xs \<le> int (length xs)"
    using findIndex_bounds [of "\<lambda>i. item_id i = (case tok of Given t \<Rightarrow> t | _ \<Rightarrow> [])" xs]
    by (auto simp: startIndexOf_def Let_def split: optional.splits)
  then show ?thesis by (metis nat_le_iff nat_0_le of_nat_le_iff zero_le)
qed

lemma slice_nat:
  "s \<le> length xs \<Longrightarrow> 0 < L \<Longrightarrow> slice xs (int s) (int s + L) = take (nat L) (drop s xs)"
  by (auto simp: slice_def Let_def min_def)

lemma sliceFrom_nat: "s \<le> length xs \<Longrightarrow> sliceFrom xs (int s) = drop s xs"
  by (auto simp: sliceFrom_def slice_def Let_def min_def)

lemma paginated_from:
  assumes "startIndexOf tok xs = int s" and "s \<le> length xs" and "0 < limitOrDefault l"
  shows "paginated \<lparr>limit = l, pageToken = tok\<rparr> xs =
           Inr \<lparr>items = take (nat (limitOrDefault l)) (drop s xs),
                nextPage = (if int (length xs) \<le> limitOrDefault l + int s then None
                            else Some (item_id (xs ! (s + nat (limitOrDefault l)))))\<rparr>"
proof (cases "int (length xs) \<le> limitOrDefault l + int s")
  case True
  then have "take (nat (limitOrDefault l)) (drop s xs) = drop s xs" by simp
  with True assms show ?thesis
    by (simp add: paginated_def Let_def sliceFrom_nat)
next
  case False
  then have "at_index xs (int s + limitOrDefault l) = Some (xs ! (s + nat (limitOrDefault l)))"
    using assms by (simp add: at_index_def nat_add_distrib)
  with False assms show ?thesis
    by (simp add: paginated_def Let_def slice_nat)
qed

lemma fetchAll_from:
  assumes d: "distinct (map item_id xs)" and ne: "[] \<notin> set (map item_id (tl xs))"
    and L: "0 < limitOrDefault l"
  shows "startIndexOf tok xs = int s \<Longrightarrow> s \<le> length xs \<Longrightarrow> length xs - s < fuel
           \<Longrightarrow> \<exists>pages. fetchAll fuel l tok xs = Some (Inr pages) \<and> concat pages = drop s xs"
proof (induction fuel arbitrary: tok s)
  case 0
  then show ?case by simp
next
  case (Suc fuel)
  let ?L = "nat (limitOrDefault l)"
  note pg = paginated_from [OF Suc.prems(1) Suc.prems(2) L]
  show ?case
  proof (cases "int (length xs) \<le> limitOrDefault l + int s")
    case True
    then have "take ?L (drop s xs) = drop s xs" by simp
    with True pg show ?thesis by simp
  next
    case False
    then have k: "s + ?L < length xs" using L by linarith
    from L have pos: "0 < s + ?L" by simp
    have "xs ! (s + ?L) \<in> set (tl xs)"
    proof -
      from pos obtain j where j: "s + ?L = Suc j" by (cases "s + ?L") auto
      with k have "j < length (tl xs)" by simp
      then have "tl xs ! j \<in> set (tl xs)" by (rule nth_mem)
      moreover from k j have "tl xs ! j = xs ! (s + ?L)" by (simp add: nth_tl)
      ultimately show ?thesis by simp
    qed
    with ne have "item_id (xs ! (s + ?L)) \<noteq> []" by force
    with d k have st: "startIndexOf (Given (item_id (xs ! (s + ?L)))) xs = int (s + ?L)"
      by (rule startIndexOf_token)
    have "length xs - (s + ?L) < fuel" using Suc.prems(3) k L by linarith
    with Suc.IH [OF st] k obtain rest where
      rest: "fetchAll fuel l (Given (item_id (xs ! (s + ?L)))) xs = Some (Inr rest)"
      and cr: "concat rest = drop (s + ?L) xs" by auto
    have "take ?L (drop s xs) @ drop (s + ?L) xs = drop s xs"
      by (metis add.commute append_take_drop_id drop_drop)
    with False pg rest cr show ?thesis by simp
  qed
qed

subsection \<open>Listing a collection page by page\<close>

text \<open>
  C1 does not hold for every collection with distinct ids: the empty string is a
  string, and a token that is the empty string is falsy, so the call that passes it
  starts again at the first item. With an item \<open>a\<close> followed by an item whose id is
  the empty string, and a limit of 1, the first call returns \<open>[a]\<close> and the empty
  token, and the call passing that token returns the same page and the same token: the
  chain never reaches a \<open>null\<close> token.
\<close>

theorem fetchAll_empty_id_token_restarts:
  "distinct (map item_id [\<lparr>item_id = ''a''\<rparr>, \<lparr>item_id = ''''\<rparr>])
  \<and> paginated \<lparr>limit = Given 1, pageToken = Undefined\<rparr> [\<lparr>item_id = ''a''\<rparr>, \<lparr>item_id = ''''\<rparr>]
      = Inr \<lparr>items = [\<lparr>item_id = ''a''\<rparr>], nextPage = Some ''''\<rparr>
  \<and> paginated \<lparr>limit = Given 1, pageToken = Given ''''\<rparr> [\<lparr>item_id = ''a''\<rparr>, \<lparr>item_id = ''''\<rparr>]
      = Inr \<lparr>items = [\<lparr>item_id = ''a''\<rparr>], nextPage = Some ''''\<rparr>
  \<and> fetchAll 3 (Given 1) Undefined [\<lparr>item_id = ''a''\<rparr>, \<lparr>item_id = ''''\<rparr>] = None"
  by (simp add: paginated_def limitOrDefault_def startIndexOf_def sliceFrom_def slice_def
      at_index_def numeral_3_eq_3)

text \<open>
  C1, amended. For every collection of items with pairwise distinct ids of which none
  but possibly the first is the empty string, and every positive limit \<open>L\<close>, the calls
  to \<open>paginated\<close> chained by the returned tokens, starting without token, end with a
  \<open>null\<close> token after at most one call more than there are items, and their slices, one
  after the other, are the collection: every item once, in order. And a call whose
  token is the id of no item returns what the call without token returns.
\<close>

theorem fetchAll_visits_every_item_once:
  "distinct (map item_id xs) \<Longrightarrow> [] \<notin> set (map item_id (tl xs)) \<Longrightarrow> 0 < L \<Longrightarrow>
   (\<exists>pages. fetchAll (Suc (length xs)) (Given L) Undefined xs = Some (Inr pages)
        \<and> concat pages = xs)
   \<and> (\<forall>t. t \<notin> set (map item_id xs) \<longrightarrow>
        paginated \<lparr>limit = Given L, pageToken = Given t\<rparr> xs
          = paginated \<lparr>limit = Given L, pageToken = Undefined\<rparr> xs)"
proof (intro conjI allI impI)
  assume a: "distinct (map item_id xs)" "[] \<notin> set (map item_id (tl xs))" "0 < L"
  then have L: "0 < limitOrDefault (Given L)" by (simp add: limitOrDefault_def)
  from fetchAll_from [OF a(1) a(2) L, of Undefined 0 "Suc (length xs)"]
  show "\<exists>pages. fetchAll (Suc (length xs)) (Given L) Undefined xs = Some (Inr pages)
        \<and> concat pages = xs"
    by (simp add: startIndexOf_falsy)
next
  fix t assume "t \<notin> set (map item_id xs)"
  then have "startIndexOf (Given t) xs = startIndexOf Undefined xs"
    by (simp add: startIndexOf_unmatched startIndexOf_falsy)
  then show "paginated \<lparr>limit = Given L, pageToken = Given t\<rparr> xs
          = paginated \<lparr>limit = Given L, pageToken = Undefined\<rparr> xs"
    by (simp add: paginated_def)
qed

theorem fetchAll_visits_every_item_once_witness:
  "distinct (map item_id [\<lparr>item_id = ''a''\<rparr>, \<lparr>item_id = ''b''\<rparr>, \<lparr>item_id = ''c''\<rparr>])
   \<and> [] \<notin> set (map item_id (tl [\<lparr>item_id = ''a''\<rparr>, \<lparr>item_id = ''b''\<rparr>, \<lparr>item_id = ''c''\<rparr>]))
   \<and> (0::int) < 2
   \<and> (\<exists>pages. fetchAll 4 (Given 2) Undefined
                  [\<lparr>item_id = ''a''\<rparr>, \<lparr>item_id = ''b''\<rparr>, \<lparr>item_id = ''c''\<rparr>] = Some (Inr pages)
          \<and> concat pages = [\<lparr>item_id = ''a''\<rparr>, \<lparr>item_id = ''b''\<rparr>, \<lparr>item_id = ''c''\<rparr>])
   \<and> ''z'' \<notin> set (map item_id [\<lparr>item_id = ''a''\<rparr>, \<lparr>item_id = ''b''\<rparr>, \<lparr>item_id = ''c''\<rparr>])
   \<and> paginated \<lparr>limit = Given 2, pageToken = Given ''z''\<rparr>
         [\<lparr>item_id = ''a''\<rparr>, \<lparr>item_id = ''b''\<rparr>, \<lparr>item_id = ''c''\<rparr>]
       = paginated \<lparr>limit = Given 2, pageToken = Undefined\<rparr>
           [\<lparr>item_id = ''a''\<rparr>, \<lparr>item_id = ''b''\<rparr>, \<lparr>item_id = ''c''\<rparr>]"
proof -
  let ?xs = "[\<lparr>item_id = ''a''\<rparr>, \<lparr>item_id = ''b''\<rparr>, \<lparr>item_id = ''c''\<rparr>]"
  have h1: "distinct (map item_id ?xs)" by simp
  have h2: "[] \<notin> set (map item_id (tl ?xs))" by simp
  have h3: "(0::int) < 2" by simp
  have h4: "''z'' \<notin> set (map item_id ?xs)" by simp
  from fetchAll_visits_every_item_once [OF h1 h2 h3] h4
  have "(\<exists>pages. fetchAll (Suc (length ?xs)) (Given 2) Undefined ?xs = Some (Inr pages)
            \<and> concat pages = ?xs)
        \<and> paginated \<lparr>limit = Given 2, pageToken = Given ''z''\<rparr> ?xs
            = paginated \<lparr>limit = Given 2, pageToken = Undefined\<rparr> ?xs"
    by blast
  moreover have "Suc (length ?xs) = 4" by simp
  ultimately show ?thesis using h1 h2 h3 h4 by metis
qed

subsection \<open>What the page token is\<close>

text \<open>
  C5 does not hold: the token is not the id of the returned slice's last item. With
  the items \<open>a\<close>, \<open>b\<close>, \<open>c\<close> and a limit of 1, the first call returns \<open>[a]\<close> and the
  token \<open>b\<close>, and the call passing \<open>b\<close> returns the slice \<open>[b]\<close>, which begins with the
  token item and not with the item after it.
\<close>

theorem nextPage_is_not_last_item_id:
  "paginated \<lparr>limit = Given 1, pageToken = Undefined\<rparr>
       [\<lparr>item_id = ''a''\<rparr>, \<lparr>item_id = ''b''\<rparr>, \<lparr>item_id = ''c''\<rparr>]
     = Inr \<lparr>items = [\<lparr>item_id = ''a''\<rparr>], nextPage = Some ''b''\<rparr>
   \<and> item_id (last [\<lparr>item_id = ''a''\<rparr>]) \<noteq> ''b''
   \<and> paginated \<lparr>limit = Given 1, pageToken = Given ''b''\<rparr>
       [\<lparr>item_id = ''a''\<rparr>, \<lparr>item_id = ''b''\<rparr>, \<lparr>item_id = ''c''\<rparr>]
     = Inr \<lparr>items = [\<lparr>item_id = ''b''\<rparr>], nextPage = Some ''c''\<rparr>"
  by (simp add: paginated_def limitOrDefault_def startIndexOf_def sliceFrom_def slice_def
      at_index_def)

lemma take_drop_last:
  "0 < n \<Longrightarrow> s + n \<le> length xs \<Longrightarrow> last (take n (drop s xs)) = xs ! (s + n - 1)"
proof -
  assume a: "0 < n" "s + n \<le> length xs"
  then have len: "length (take n (drop s xs)) = n" by simp
  with a have "take n (drop s xs) \<noteq> []" by auto
  then have "last (take n (drop s xs)) = take n (drop s xs) ! (n - 1)"
    using len by (simp add: last_conv_nth)
  also have "\<dots> = xs ! (s + (n - 1))" using a by simp
  finally show ?thesis using a by simp
qed

lemma take_drop_hd:
  "0 < n \<Longrightarrow> k < length xs \<Longrightarrow> hd (take n (drop k xs)) = xs ! k"
  by (cases n) (simp_all add: hd_drop_conv_nth)

text \<open>
  C5, amended. The page token is the id of the next page's first item. For every
  collection with distinct ids and every limit that is not negative, whenever a call
  returns a token, the returned slice is a run of the collection of full length, the
  token is the id of the item right after the slice's last item, and, the token not
  being the empty string, the call passing it returns the next slice, which begins with
  the token item itself.
\<close>

theorem nextPage_is_id_of_following_item:
  assumes d: "distinct (map item_id xs)" and L: "0 < limitOrDefault l"
    and call: "paginated \<lparr>limit = l, pageToken = tok\<rparr> xs = Inr page"
    and tk: "nextPage page = Some t"
  shows "\<exists>s. items page = take (nat (limitOrDefault l)) (drop s xs)
           \<and> s + nat (limitOrDefault l) < length xs
           \<and> item_id (last (items page)) = item_id (xs ! (s + nat (limitOrDefault l) - 1))
           \<and> t = item_id (xs ! (s + nat (limitOrDefault l)))
           \<and> (t \<noteq> [] \<longrightarrow>
                (\<exists>page'. paginated \<lparr>limit = l, pageToken = Given t\<rparr> xs = Inr page'
                   \<and> items page' = take (nat (limitOrDefault l)) (drop (s + nat (limitOrDefault l)) xs)
                   \<and> hd (items page') = xs ! (s + nat (limitOrDefault l))))"
proof -
  let ?L = "nat (limitOrDefault l)"
  from startIndexOf_range obtain s where s: "startIndexOf tok xs = int s" "s \<le> length xs"
    by blast
  note pg = paginated_from [OF s L]
  from pg call tk have big: "\<not> int (length xs) \<le> limitOrDefault l + int s"
    by (auto split: if_splits)
  then have k: "s + ?L < length xs" using L by linarith
  from pg call big have it: "items page = take ?L (drop s xs)"
    and t: "t = item_id (xs ! (s + ?L))" using tk by auto
  from L k have lst: "last (take ?L (drop s xs)) = xs ! (s + ?L - 1)"
    by (intro take_drop_last) auto
  have nxt: "\<exists>page'. paginated \<lparr>limit = l, pageToken = Given t\<rparr> xs = Inr page'
                   \<and> items page' = take ?L (drop (s + ?L) xs)
                   \<and> hd (items page') = xs ! (s + ?L)" if "t \<noteq> []"
  proof -
    from that t d k have "startIndexOf (Given t) xs = int (s + ?L)"
      using startIndexOf_token [of xs "s + ?L"] by simp
    from paginated_from [OF this _ L] k L show ?thesis
      by (simp add: take_drop_hd hd_drop_conv_nth)
  qed
  from it k lst t nxt show ?thesis by auto
qed

theorem nextPage_is_id_of_following_item_witness:
  "distinct (map item_id [\<lparr>item_id = ''a''\<rparr>, \<lparr>item_id = ''b''\<rparr>, \<lparr>item_id = ''c''\<rparr>])
   \<and> 0 < limitOrDefault (Given 1)
   \<and> paginated \<lparr>limit = Given 1, pageToken = Undefined\<rparr>
         [\<lparr>item_id = ''a''\<rparr>, \<lparr>item_id = ''b''\<rparr>, \<lparr>item_id = ''c''\<rparr>]
       = Inr \<lparr>items = [\<lparr>item_id = ''a''\<rparr>], nextPage = Some ''b''\<rparr>
   \<and> ''b'' \<noteq> []
   \<and> (\<exists>page'. paginated \<lparr>limit = Given 1, pageToken = Given ''b''\<rparr>
                  [\<lparr>item_id = ''a''\<rparr>, \<lparr>item_id = ''b''\<rparr>, \<lparr>item_id = ''c''\<rparr>] = Inr page'
          \<and> item_id (hd (items page')) = ''b'')"
proof -
  let ?xs = "[\<lparr>item_id = ''a''\<rparr>, \<lparr>item_id = ''b''\<rparr>, \<lparr>item_id = ''c''\<rparr>]"
  let ?page = "\<lparr>items = [\<lparr>item_id = ''a''\<rparr>], nextPage = Some ''b''\<rparr>"
  have h1: "distinct (map item_id ?xs)" by simp
  have h2: "0 < limitOrDefault (Given 1)" by (simp add: limitOrDefault_def)
  have h3: "paginated \<lparr>limit = Given 1, pageToken = Undefined\<rparr> ?xs = Inr ?page"
    by (simp add: paginated_def limitOrDefault_def startIndexOf_def sliceFrom_def slice_def
        at_index_def)
  have h4: "nextPage ?page = Some ''b''" by simp
  from nextPage_is_id_of_following_item [OF h1 h2 h3 h4]
  obtain s page' where "''b'' = item_id (?xs ! (s + nat (limitOrDefault (Given 1))))"
    and "paginated \<lparr>limit = Given 1, pageToken = Given ''b''\<rparr> ?xs = Inr page'"
    and "hd (items page') = ?xs ! (s + nat (limitOrDefault (Given 1)))"
    by auto
  then have "\<exists>page'. paginated \<lparr>limit = Given 1, pageToken = Given ''b''\<rparr> ?xs = Inr page'
          \<and> item_id (hd (items page')) = ''b''"
    by metis
  with h1 h2 h3 show ?thesis by simp
qed

section \<open>Properties of role resolution\<close>

lemma set_userGroupIds:
  "set (userGroupIds d u) =
     {groupId gm | gm. gm \<in> set (groupMemberships d) \<and> userId gm = user_id u
        \<and> (\<exists>g\<in>set (userGroups d). group_id g = groupId gm)}"
  (is "?lhs = ?rhs")
proof -
  let ?look = "\<lambda>gm. find (\<lambda>g. group_id g = groupId gm) (userGroups d)"
  have found: "group_id g = groupId gm \<and> g \<in> set (userGroups d)" if "?look gm = Some g" for gm g
    using that by (auto simp: find_Some_iff)
  have none: "?look gm = None \<longleftrightarrow> (\<forall>g\<in>set (userGroups d). group_id g \<noteq> groupId gm)" for gm
    by (auto simp: find_None_iff)
  have "k \<in> ?lhs \<longleftrightarrow> k \<in> ?rhs" for k
  proof
    assume "k \<in> ?lhs"
    then obtain gm g where gm: "gm \<in> set (groupMemberships d)" "userId gm = user_id u"
      and g: "?look gm = Some g" and k: "k = group_id g"
      by (auto simp: userGroupIds_def)
    from found [OF g] k gm show "k \<in> ?rhs" by auto
  next
    assume "k \<in> ?rhs"
    then obtain gm g0 where gm: "gm \<in> set (groupMemberships d)" "userId gm = user_id u"
      and k: "k = groupId gm" and g0: "g0 \<in> set (userGroups d)" "group_id g0 = groupId gm"
      by auto
    from g0 have "?look gm \<noteq> None" by (auto simp: none)
    then obtain g where g: "?look gm = Some g" by auto
    with found [OF g] k have "k = group_id (the (?look gm))" by simp
    moreover from gm g have "?look gm \<in> {x \<in> ?look ` {gm \<in> set (groupMemberships d). userId gm = user_id u}. x \<noteq> None}"
      by (simp add: image_iff) (metis (mono_tags, lifting))
    ultimately show "k \<in> ?lhs" unfolding userGroupIds_def by (simp add: image_iff) blast
  qed
  then show ?thesis by blast
qed

lemma set_actorsWithRole:
  "set (actorsWithRole d rt rid role) =
     {identity_id ra | ra. ra \<in> set (roleAssignments d) \<and> resource_type ra = rt
        \<and> resource_id ra = rid \<and> role_name ra \<in> set (roleOrStronger role)}"
  by (auto simp: actorsWithRole_def)

lemma set_roleOrStronger:
  "set (roleOrStronger role) =
     (case role of Viewer \<Rightarrow> {Viewer, Collaborator, Admin}
                 | Collaborator \<Rightarrow> {Collaborator, Admin}
                 | Admin \<Rightarrow> {Admin})"
  by (cases role) auto

lemma userHasRole_iff_aux:
  "userHasRole d u rt rid role \<longleftrightarrow>
     (\<exists>ra\<in>set (roleAssignments d).
        resource_type ra = rt \<and> resource_id ra = rid
        \<and> role_name ra \<in> (case role of Viewer \<Rightarrow> {Viewer, Collaborator, Admin}
                                      | Collaborator \<Rightarrow> {Collaborator, Admin}
                                      | Admin \<Rightarrow> {Admin})
        \<and> (identity_id ra = user_id u
             \<or> (\<exists>gm\<in>set (groupMemberships d).
                   userId gm = user_id u \<and> groupId gm = identity_id ra
                   \<and> (\<exists>g\<in>set (userGroups d). group_id g = groupId gm))))"
  unfolding userHasRole_def list_ex_iff set_actorsWithRole set_roleOrStronger [symmetric]
proof (simp add: set_userGroupIds, rule iffI)
  let ?ok = "\<lambda>ra. ra \<in> set (roleAssignments d) \<and> resource_type ra = rt
                 \<and> resource_id ra = rid \<and> role_name ra \<in> set (roleOrStronger role)"
  let ?member = "\<lambda>gm. gm \<in> set (groupMemberships d) \<and> userId gm = user_id u
                 \<and> (\<exists>g\<in>set (userGroups d). group_id g = groupId gm)"
  let ?rhs = "\<exists>ra\<in>set (roleAssignments d). resource_type ra = rt \<and> resource_id ra = rid
                 \<and> role_name ra \<in> set (roleOrStronger role)
                 \<and> (identity_id ra = user_id u
                      \<or> (\<exists>gm\<in>set (groupMemberships d). userId gm = user_id u
                            \<and> groupId gm = identity_id ra
                            \<and> (\<exists>g\<in>set (userGroups d). group_id g = groupId gm)))"
  let ?lhs = "(\<exists>ra. user_id u = identity_id ra \<and> ?ok ra)
              \<or> (\<exists>i. (\<exists>gm. i = groupId gm \<and> ?member gm) \<and> (\<exists>ra. i = identity_id ra \<and> ?ok ra))"
  show ?rhs if ?lhs
    using that by (elim disjE exE conjE) metis+
  show ?lhs if ?rhs
    using that by (elim bexE conjE disjE) metis+
qed

text \<open>
  C2. \<open>userHasRole\<close> is true exactly when some role assignment on that resource type
  and that resource id, with a role name in the closure of the role (viewer: viewer,
  collaborator, admin; collaborator: collaborator, admin; admin: admin), names the
  user's own id or the id of a group of the database that a membership record ties the
  user to. So whoever holds admin on a resource passes the checks for viewer,
  collaborator and admin on it, and when no role assignment is on a resource id, no
  check on that id passes, whatever the roles held on other ids of the same type.
\<close>

theorem userHasRole_exact_resource:
  "(userHasRole d u rt rid role \<longleftrightarrow>
     (\<exists>ra\<in>set (roleAssignments d).
        resource_type ra = rt \<and> resource_id ra = rid
        \<and> role_name ra \<in> (case role of Viewer \<Rightarrow> {Viewer, Collaborator, Admin}
                                      | Collaborator \<Rightarrow> {Collaborator, Admin}
                                      | Admin \<Rightarrow> {Admin})
        \<and> (identity_id ra = user_id u
             \<or> (\<exists>gm\<in>set (groupMemberships d).
                   userId gm = user_id u \<and> groupId gm = identity_id ra
                   \<and> (\<exists>g\<in>set (userGroups d). group_id g = groupId gm)))))
   \<and> (\<forall>ra\<in>set (roleAssignments d).
         resource_type ra = rt \<and> resource_id ra = rid \<and> role_name ra = Admin
         \<and> (identity_id ra = user_id u
              \<or> (\<exists>gm\<in>set (groupMemberships d).
                    userId gm = user_id u \<and> groupId gm = identity_id ra
                    \<and> (\<exists>g\<in>set (userGroups d). group_id g = groupId gm)))
         \<longrightarrow> userHasRole d u rt rid Viewer \<and> userHasRole d u rt rid Collaborator
             \<and> userHasRole d u rt rid Admin)
   \<and> ((\<forall>ra\<in>set (roleAssignments d). resource_id ra \<noteq> rid) \<longrightarrow> \<not> userHasRole d u rt rid role)"
proof (intro conjI ballI impI)
  show "userHasRole d u rt rid role \<longleftrightarrow>
     (\<exists>ra\<in>set (roleAssignments d).
        resource_type ra = rt \<and> resource_id ra = rid
        \<and> role_name ra \<in> (case role of Viewer \<Rightarrow> {Viewer, Collaborator, Admin}
                                      | Collaborator \<Rightarrow> {Collaborator, Admin}
                                      | Admin \<Rightarrow> {Admin})
        \<and> (identity_id ra = user_id u
             \<or> (\<exists>gm\<in>set (groupMemberships d).
                   userId gm = user_id u \<and> groupId gm = identity_id ra
                   \<and> (\<exists>g\<in>set (userGroups d). group_id g = groupId gm))))"
    by (rule userHasRole_iff_aux)
next
  fix ra
  assume ra: "ra \<in> set (roleAssignments d)"
    and adm: "resource_type ra = rt \<and> resource_id ra = rid \<and> role_name ra = Admin
         \<and> (identity_id ra = user_id u
              \<or> (\<exists>gm\<in>set (groupMemberships d).
                    userId gm = user_id u \<and> groupId gm = identity_id ra
                    \<and> (\<exists>g\<in>set (userGroups d). group_id g = groupId gm)))"
  have "userHasRole d u rt rid r" for r
    unfolding userHasRole_iff_aux using ra adm by (intro bexI [of _ ra]) (cases r; simp)+
  then show "userHasRole d u rt rid Viewer" "userHasRole d u rt rid Collaborator"
    "userHasRole d u rt rid Admin" by simp_all
next
  assume "\<forall>ra\<in>set (roleAssignments d). resource_id ra \<noteq> rid"
  then show "\<not> userHasRole d u rt rid role"
    unfolding userHasRole_iff_aux by blast
qed

theorem userHasRole_exact_resource_witness:
  "userHasRole
      \<lparr>userGroups = [\<lparr>group_id = ''g1''\<rparr>],
       groupMemberships = [\<lparr>userId = ''u1'', groupId = ''g1''\<rparr>],
       roleAssignments = [\<lparr>resource_type = ''project'', resource_id = ''p1'',
                           identity_id = ''g1'', role_name = Admin\<rparr>]\<rparr>
      \<lparr>user_id = ''u1'', display_name = ''Hannah''\<rparr> ''project'' ''p1'' Viewer
   \<and> userHasRole
      \<lparr>userGroups = [\<lparr>group_id = ''g1''\<rparr>],
       groupMemberships = [\<lparr>userId = ''u1'', groupId = ''g1''\<rparr>],
       roleAssignments = [\<lparr>resource_type = ''project'', resource_id = ''p1'',
                           identity_id = ''g1'', role_name = Admin\<rparr>]\<rparr>
      \<lparr>user_id = ''u1'', display_name = ''Hannah''\<rparr> ''project'' ''p1'' Collaborator
   \<and> userHasRole
      \<lparr>userGroups = [\<lparr>group_id = ''g1''\<rparr>],
       groupMemberships = [\<lparr>userId = ''u1'', groupId = ''g1''\<rparr>],
       roleAssignments = [\<lparr>resource_type = ''project'', resource_id = ''p1'',
                           identity_id = ''g1'', role_name = Admin\<rparr>]\<rparr>
      \<lparr>user_id = ''u1'', display_name = ''Hannah''\<rparr> ''project'' ''p1'' Admin
   \<and> \<not> userHasRole
      \<lparr>userGroups = [\<lparr>group_id = ''g1''\<rparr>],
       groupMemberships = [\<lparr>userId = ''u1'', groupId = ''g1''\<rparr>],
       roleAssignments = [\<lparr>resource_type = ''project'', resource_id = ''p1'',
                           identity_id = ''g1'', role_name = Admin\<rparr>]\<rparr>
      \<lparr>user_id = ''u1'', display_name = ''Hannah''\<rparr> ''project'' ''p2'' Viewer"
proof -
  let ?ra = "\<lparr>resource_type = ''project'', resource_id = ''p1'',
              identity_id = ''g1'', role_name = Admin\<rparr>"
  let ?d = "\<lparr>userGroups = [\<lparr>group_id = ''g1''\<rparr>],
            groupMemberships = [\<lparr>userId = ''u1'', groupId = ''g1''\<rparr>],
            roleAssignments = [?ra]\<rparr>"
  let ?u = "\<lparr>user_id = ''u1'', display_name = ''Hannah''\<rparr>"
  note t1 = userHasRole_exact_resource [of ?d ?u "''project''" "''p1''" Viewer]
  note t2 = userHasRole_exact_resource [of ?d ?u "''project''" "''p2''" Viewer]
  from t1 have "userHasRole ?d ?u ''project'' ''p1'' Viewer
      \<and> userHasRole ?d ?u ''project'' ''p1'' Collaborator
      \<and> userHasRole ?d ?u ''project'' ''p1'' Admin"
    by simp
  moreover from t2 have "\<not> userHasRole ?d ?u ''project'' ''p2'' Viewer"
    by simp
  ultimately show ?thesis by simp
qed

section \<open>Properties of IP range containment\<close>

text \<open>The code reads an address with the reader of its family.\<close>

lemma ipToBigInt_addressValue:
  "addressValue_spec lib s = Some v \<Longrightarrow> ipToBigInt lib s = Inr v \<and> parseIp lib s \<noteq> ParseError"
  by (cases "parseIp lib s") (simp_all add: addressValue_spec_def ipToBigInt_def)

lemma ipInRange_valid:
  assumes "addressValue_spec lib ip = Some n"
    and "addressValue_spec lib (first_ip r) = Some lo" and "addressValue_spec lib (last_ip r) = Some hi"
  shows "ipInRange lib ip r =
           Inr (parseIp lib (first_ip r) = parseIp lib ip \<and> lo \<le> n \<and> n \<le> hi)"
proof -
  note ip = ipToBigInt_addressValue [OF assms(1)]
  note lo = ipToBigInt_addressValue [OF assms(2)]
  note hi = ipToBigInt_addressValue [OF assms(3)]
  have "(parseIp lib ip = V4) = (parseIp lib (first_ip r) = V4)
          \<longleftrightarrow> parseIp lib (first_ip r) = parseIp lib ip"
    using ip lo by (cases "parseIp lib ip"; cases "parseIp lib (first_ip r)") simp_all
  with ip lo hi show ?thesis
    by (auto simp: ipInRange_def Let_def)
qed

lemma ipInRange_other_family:
  "(parseIp lib ip = V4) \<noteq> (parseIp lib (first_ip r) = V4) \<Longrightarrow> ipInRange lib ip r = Inr False"
  by (simp add: ipInRange_def Let_def)

lemma ipInAnyRange_valid:
  assumes "addressValue_spec lib ip = Some n"
  shows "(\<forall>r\<in>set ranges. \<exists>lo hi. addressValue_spec lib (first_ip r) = Some lo
                                \<and> addressValue_spec lib (last_ip r) = Some hi)
       \<Longrightarrow> ipInAnyRange lib ip ranges =
             Inr (\<exists>r\<in>set ranges. parseIp lib (first_ip r) = parseIp lib ip
                    \<and> (\<exists>lo hi. addressValue_spec lib (first_ip r) = Some lo
                          \<and> addressValue_spec lib (last_ip r) = Some hi \<and> lo \<le> n \<and> n \<le> hi))"
proof (induction ranges)
  case Nil
  then show ?case by simp
next
  case (Cons r ranges)
  then obtain lo hi where r: "addressValue_spec lib (first_ip r) = Some lo"
    "addressValue_spec lib (last_ip r) = Some hi"
    by auto
  note here = ipInRange_valid [OF assms r]
  from Cons have rest: "ipInAnyRange lib ip ranges =
             Inr (\<exists>r\<in>set ranges. parseIp lib (first_ip r) = parseIp lib ip
                    \<and> (\<exists>lo hi. addressValue_spec lib (first_ip r) = Some lo
                          \<and> addressValue_spec lib (last_ip r) = Some hi \<and> lo \<le> n \<and> n \<le> hi))"
    by simp
  show ?case
  proof (cases "parseIp lib (first_ip r) = parseIp lib ip \<and> lo \<le> n \<and> n \<le> hi")
    case True
    with here r show ?thesis by auto
  next
    case False
    with here r rest show ?thesis by auto
  qed
qed

lemma dottedQuadValue_examples: "dottedQuadValue ''10.0.0.5'' = Some 167772165"
  "dottedQuadValue ''10.0.0.0'' = Some 167772160"
  "dottedQuadValue ''10.0.0.10'' = Some 167772170"
  by (simp_all add: dottedQuadValue_def octet_of_def digit_of_def)

text \<open>
  C4. For a probe that is an address and ranges whose endpoints are addresses, each
  with the value that the reader of its own family gives it, \<open>ipInAnyRange\<close> returns
  true exactly when some range has the family of the probe and the probe's value lies
  between the values of the range's first and last endpoint, both included. Whatever
  the strings, a range of the other family returns false and raises nothing. In
  particular \<open>10.0.0.5\<close> is in the range from \<open>10.0.0.0\<close> to \<open>10.0.0.10\<close>.
\<close>

theorem ipInAnyRange_same_family_inclusive:
  "(addressValue_spec lib ip = Some n
      \<and> (\<forall>r\<in>set ranges. \<exists>lo hi. addressValue_spec lib (first_ip r) = Some lo
                               \<and> addressValue_spec lib (last_ip r) = Some hi)
    \<longrightarrow> ipInAnyRange lib ip ranges =
          Inr (\<exists>r\<in>set ranges. parseIp lib (first_ip r) = parseIp lib ip
                 \<and> (\<exists>lo hi. addressValue_spec lib (first_ip r) = Some lo
                       \<and> addressValue_spec lib (last_ip r) = Some hi \<and> lo \<le> n \<and> n \<le> hi)))
   \<and> ((parseIp lib ip = V4) \<noteq> (parseIp lib (first_ip rng) = V4)
        \<longrightarrow> ipInRange lib ip rng = Inr False \<and> ipInAnyRange lib ip [rng] = Inr False)
   \<and> ipInAnyRange (textualIpLib isIPv6 valueIPv6) ''10.0.0.5''
        [\<lparr>first_ip = ''10.0.0.0'', last_ip = ''10.0.0.10''\<rparr>] = Inr True"
proof (intro conjI impI)
  assume "addressValue_spec lib ip = Some n
      \<and> (\<forall>r\<in>set ranges. \<exists>lo hi. addressValue_spec lib (first_ip r) = Some lo
                               \<and> addressValue_spec lib (last_ip r) = Some hi)"
  then show "ipInAnyRange lib ip ranges =
          Inr (\<exists>r\<in>set ranges. parseIp lib (first_ip r) = parseIp lib ip
                 \<and> (\<exists>lo hi. addressValue_spec lib (first_ip r) = Some lo
                       \<and> addressValue_spec lib (last_ip r) = Some hi \<and> lo \<le> n \<and> n \<le> hi))"
    using ipInAnyRange_valid [of lib ip n ranges] by blast
next
  assume other: "(parseIp lib ip = V4) \<noteq> (parseIp lib (first_ip rng) = V4)"
  then show "ipInRange lib ip rng = Inr False" by (rule ipInRange_other_family)
  then show "ipInAnyRange lib ip [rng] = Inr False" by simp
next
  show "ipInAnyRange (textualIpLib isIPv6 valueIPv6) ''10.0.0.5''
        [\<lparr>first_ip = ''10.0.0.0'', last_ip = ''10.0.0.10''\<rparr>] = Inr True"
    by (simp add: ipInRange_def ipToBigInt_def textualIpLib_def dottedQuadValue_examples)
qed

text \<open>
  The witness reads IPv6 text from a table of three addresses, \<open>::1\<close>, \<open>::5\<close> and
  \<open>::ff\<close>, with their values 1, 5 and 255. The IPv6 probe \<open>::5\<close> is in the IPv6
  range from \<open>::1\<close> to \<open>::ff\<close> and in no IPv4 range, though its value lies between
  those of \<open>0.0.0.0\<close> and \<open>10.0.0.10\<close>; the IPv4 reader has no value for it. The IPv4
  probe \<open>10.0.0.10\<close> is in the range that ends with it.
\<close>

theorem ipInAnyRange_same_family_inclusive_witness:
  "addressValue_spec
      (textualIpLib (\<lambda>s. s \<in> set [''::1'', ''::5'', ''::ff''])
         (map_of [(''::1'', 1), (''::5'', 5), (''::ff'', 255)])) ''::5'' = Some 5
   \<and> IPv4_value
      (textualIpLib (\<lambda>s. s \<in> set [''::1'', ''::5'', ''::ff''])
         (map_of [(''::1'', 1), (''::5'', 5), (''::ff'', 255)])) ''::5'' = None
   \<and> ipInAnyRange
      (textualIpLib (\<lambda>s. s \<in> set [''::1'', ''::5'', ''::ff''])
         (map_of [(''::1'', 1), (''::5'', 5), (''::ff'', 255)])) ''::5''
       [\<lparr>first_ip = ''0.0.0.0'', last_ip = ''10.0.0.10''\<rparr>,
        \<lparr>first_ip = ''::1'', last_ip = ''::ff''\<rparr>] = Inr True
   \<and> ipInAnyRange
      (textualIpLib (\<lambda>s. s \<in> set [''::1'', ''::5'', ''::ff''])
         (map_of [(''::1'', 1), (''::5'', 5), (''::ff'', 255)])) ''::5''
       [\<lparr>first_ip = ''0.0.0.0'', last_ip = ''10.0.0.10''\<rparr>] = Inr False
   \<and> ipInAnyRange
      (textualIpLib (\<lambda>s. s \<in> set [''::1'', ''::5'', ''::ff''])
         (map_of [(''::1'', 1), (''::5'', 5), (''::ff'', 255)])) ''::ff''
       [\<lparr>first_ip = ''::1'', last_ip = ''::5''\<rparr>] = Inr False
   \<and> ipInAnyRange
      (textualIpLib (\<lambda>s. s \<in> set [''::1'', ''::5'', ''::ff''])
         (map_of [(''::1'', 1), (''::5'', 5), (''::ff'', 255)])) ''10.0.0.10''
       [\<lparr>first_ip = ''::1'', last_ip = ''::ff''\<rparr>,
        \<lparr>first_ip = ''10.0.0.0'', last_ip = ''10.0.0.5''\<rparr>,
        \<lparr>first_ip = ''10.0.0.5'', last_ip = ''10.0.0.10''\<rparr>] = Inr True"
proof -
  define lib where "lib = textualIpLib (\<lambda>s. s \<in> set [''::1'', ''::5'', ''::ff''])
                (map_of [(''::1'', 1), (''::5'', 5), (''::ff'', 255)])"
  let ?r4 = "\<lparr>first_ip = ''0.0.0.0'', last_ip = ''10.0.0.10''\<rparr>"
  let ?r6 = "\<lparr>first_ip = ''::1'', last_ip = ''::ff''\<rparr>"
  let ?r6low = "\<lparr>first_ip = ''::1'', last_ip = ''::5''\<rparr>"
  let ?r4a = "\<lparr>first_ip = ''10.0.0.0'', last_ip = ''10.0.0.5''\<rparr>"
  let ?r4b = "\<lparr>first_ip = ''10.0.0.5'', last_ip = ''10.0.0.10''\<rparr>"
  have dq: "dottedQuadValue ''0.0.0.0'' = Some 0" "dottedQuadValue ''::1'' = None"
    "dottedQuadValue ''::5'' = None" "dottedQuadValue ''::ff'' = None"
    by (simp_all add: dottedQuadValue_def octet_of_def digit_of_def)
  note ev = lib_def addressValue_spec_def textualIpLib_def dottedQuadValue_examples dq
  have v6: "addressValue_spec lib ''::1'' = Some 1" "addressValue_spec lib ''::5'' = Some 5"
    "addressValue_spec lib ''::ff'' = Some 255"
    by (simp_all add: ev)
  have v4: "addressValue_spec lib ''0.0.0.0'' = Some 0"
    "addressValue_spec lib ''10.0.0.0'' = Some 167772160"
    "addressValue_spec lib ''10.0.0.5'' = Some 167772165"
    "addressValue_spec lib ''10.0.0.10'' = Some 167772170"
    by (simp_all add: ev)
  have fam: "parseIp lib ''::1'' = V6" "parseIp lib ''::5'' = V6" "parseIp lib ''::ff'' = V6"
    "parseIp lib ''0.0.0.0'' = V4" "parseIp lib ''10.0.0.0'' = V4"
    "parseIp lib ''10.0.0.5'' = V4" "parseIp lib ''10.0.0.10'' = V4"
    by (simp_all add: ev)
  have none: "IPv4_value lib ''::5'' = None" by (simp add: ev)
  note inst = ipInAnyRange_same_family_inclusive [of lib _ _ _ _ "\<lambda>s. False" "\<lambda>s. None",
      THEN conjunct1, rule_format]
  have a: "ipInAnyRange lib ''::5'' [?r4, ?r6] = Inr True"
    by (subst inst [of "''::5''" 5]) (simp_all add: v6 v4 fam)
  have b: "ipInAnyRange lib ''::5'' [?r4] = Inr False"
    by (subst inst [of "''::5''" 5]) (simp_all add: v6 v4 fam)
  have c: "ipInAnyRange lib ''::ff'' [?r6low] = Inr False"
    by (subst inst [of "''::ff''" 255]) (simp_all add: v6 v4 fam)
  have d: "ipInAnyRange lib ''10.0.0.10'' [?r6, ?r4a, ?r4b] = Inr True"
    by (subst inst [of "''10.0.0.10''" 167772170]) (simp_all add: v6 v4 fam)
  from v6(2) none a b c d show ?thesis unfolding lib_def by (intro conjI)
qed

section \<open>Properties of OxQL result shaping\<close>

subsection \<open>Summation across timeseries\<close>

lemma isNumber_iff: "isNumber p \<longleftrightarrow> (\<exists>r. p = Some (Number r))"
  by (cases p rule: isNumber.cases) simp_all

lemma numberOf_case:
  "numberOf p = (case p of Some (Number r) \<Rightarrow> r | _ \<Rightarrow> 0)"
  by (cases p rule: numberOf.cases) simp_all

lemma sum_numbers_filter:
  "sum_list (map numberOf (filter isNumber ps)) = sum_list (map numberOf ps)"
proof (induction ps)
  case Nil
  then show ?case by simp
next
  case (Cons p ps)
  then show ?case by (cases p rule: isNumber.cases) simp_all
qed

lemma some_number_iff:
  "0 < length (filter isNumber (map f tss)) \<longleftrightarrow> (\<exists>ts\<in>set tss. \<exists>r. f ts = Some (Number r))"
  by (auto simp: filter_empty_conv isNumber_iff)

lemma sumValues_nth:
  assumes "i < arrLen"
  shows "sumValues tss arrLen ! i =
     (if \<exists>ts\<in>set tss. \<exists>r. pointAt ts i = Some (Number r)
      then Some (\<Sum>ts\<leftarrow>tss. case pointAt ts i of Some (Number r) \<Rightarrow> r | _ \<Rightarrow> 0)
      else None)"
proof -
  define ps where "ps = filter isNumber (map (\<lambda>ts. pointAt ts i) tss)"
  have nth: "sumValues tss arrLen ! i
               = (if 0 < length ps then Some (sum_list (map numberOf ps)) else None)"
    unfolding sumValues_def ps_def using assms by (simp add: Let_def filter_map)
  have some: "0 < length ps \<longleftrightarrow> (\<exists>ts\<in>set tss. \<exists>r. pointAt ts i = Some (Number r))"
    unfolding ps_def by (rule some_number_iff)
  have "sum_list (map numberOf ps) = sum_list (map numberOf (map (\<lambda>ts. pointAt ts i) tss))"
    unfolding ps_def by (rule sum_numbers_filter)
  also have "\<dots> = (\<Sum>ts\<leftarrow>tss. case pointAt ts i of Some (Number r) \<Rightarrow> r | _ \<Rightarrow> 0)"
    by (simp add: numberOf_case comp_def)
  finally show ?thesis using nth some by simp
qed

text \<open>
  C3. The summed series has one entry per index below the given length. At each index
  it holds the sum of the values of exactly the timeseries that have a number there
  (the others add nothing), and \<open>null\<close> when no timeseries has one: never 0 in place
  of a gap. The series \<open>[1, null, 3]\<close> and \<open>[2, 3, null]\<close> sum to \<open>[3, 3, 3]\<close>, and two
  series that are both \<open>null\<close> at an index sum to \<open>null\<close> there.
\<close>

theorem sumValues_sums_defined_points:
  "(\<forall>i<arrLen. sumValues tss arrLen ! i =
       (if \<exists>ts\<in>set tss. \<exists>r. pointAt ts i = Some (Number r)
        then Some (\<Sum>ts\<leftarrow>tss. case pointAt ts i of Some (Number r) \<Rightarrow> r | _ \<Rightarrow> 0)
        else None))
   \<and> length (sumValues tss arrLen) = arrLen
   \<and> sumValues
        [\<lparr>points = \<lparr>timestamps = [1000, 2000, 3000],
                    points_values = [\<lparr>values_array = \<lparr>array_values = [Number 1, NullPoint, Number 3]\<rparr>\<rparr>]\<rparr>\<rparr>,
         \<lparr>points = \<lparr>timestamps = [1000, 2000, 3000],
                    points_values = [\<lparr>values_array = \<lparr>array_values = [Number 2, Number 3, NullPoint]\<rparr>\<rparr>]\<rparr>\<rparr>]
        3 = [Some 3, Some 3, Some 3]
   \<and> sumValues
        [\<lparr>points = \<lparr>timestamps = [1000],
                    points_values = [\<lparr>values_array = \<lparr>array_values = [NullPoint]\<rparr>\<rparr>]\<rparr>\<rparr>,
         \<lparr>points = \<lparr>timestamps = [1000],
                    points_values = [\<lparr>values_array = \<lparr>array_values = [NullPoint]\<rparr>\<rparr>]\<rparr>\<rparr>]
        1 = [None]"
proof (intro conjI allI impI)
  fix i assume "i < arrLen"
  then show "sumValues tss arrLen ! i =
       (if \<exists>ts\<in>set tss. \<exists>r. pointAt ts i = Some (Number r)
        then Some (\<Sum>ts\<leftarrow>tss. case pointAt ts i of Some (Number r) \<Rightarrow> r | _ \<Rightarrow> 0)
        else None)"
    by (rule sumValues_nth)
next
  show "length (sumValues tss arrLen) = arrLen" by (simp add: sumValues_def)
next
  show "sumValues
        [\<lparr>points = \<lparr>timestamps = [1000, 2000, 3000],
                    points_values = [\<lparr>values_array = \<lparr>array_values = [Number 1, NullPoint, Number 3]\<rparr>\<rparr>]\<rparr>\<rparr>,
         \<lparr>points = \<lparr>timestamps = [1000, 2000, 3000],
                    points_values = [\<lparr>values_array = \<lparr>array_values = [Number 2, Number 3, NullPoint]\<rparr>\<rparr>]\<rparr>\<rparr>]
        3 = [Some 3, Some 3, Some 3]"
    by (simp add: sumValues_def pointAt_def upt_rec Let_def)
next
  show "sumValues
        [\<lparr>points = \<lparr>timestamps = [1000],
                    points_values = [\<lparr>values_array = \<lparr>array_values = [NullPoint]\<rparr>\<rparr>]\<rparr>\<rparr>,
         \<lparr>points = \<lparr>timestamps = [1000],
                    points_values = [\<lparr>values_array = \<lparr>array_values = [NullPoint]\<rparr>\<rparr>]\<rparr>\<rparr>]
        1 = [None]"
    by (simp add: sumValues_def pointAt_def Let_def)
qed

theorem sumValues_sums_defined_points_witness:
  "(1::nat) < 2
   \<and> sumValues
        [\<lparr>points = \<lparr>timestamps = [1000, 2000],
                    points_values = [\<lparr>values_array = \<lparr>array_values = [NullPoint, Number 4]\<rparr>\<rparr>]\<rparr>\<rparr>,
         \<lparr>points = \<lparr>timestamps = [1000, 2000],
                    points_values = [\<lparr>values_array = \<lparr>array_values = [NullPoint, Number 5]\<rparr>\<rparr>]\<rparr>\<rparr>]
        2 ! 1 = Some 9
   \<and> sumValues
        [\<lparr>points = \<lparr>timestamps = [1000, 2000],
                    points_values = [\<lparr>values_array = \<lparr>array_values = [NullPoint, Number 4]\<rparr>\<rparr>]\<rparr>\<rparr>,
         \<lparr>points = \<lparr>timestamps = [1000, 2000],
                    points_values = [\<lparr>values_array = \<lparr>array_values = [NullPoint, Number 5]\<rparr>\<rparr>]\<rparr>\<rparr>]
        2 ! 0 = None"
proof -
  let ?tss = "[\<lparr>points = \<lparr>timestamps = [1000, 2000],
                    points_values = [\<lparr>values_array = \<lparr>array_values = [NullPoint, Number 4]\<rparr>\<rparr>]\<rparr>\<rparr>,
         \<lparr>points = \<lparr>timestamps = [1000, 2000],
                    points_values = [\<lparr>values_array = \<lparr>array_values = [NullPoint, Number 5]\<rparr>\<rparr>]\<rparr>\<rparr>]"
  from sumValues_sums_defined_points [of 2 ?tss]
  have at: "sumValues ?tss 2 ! i =
       (if \<exists>ts\<in>set ?tss. \<exists>r. pointAt ts i = Some (Number r)
        then Some (\<Sum>ts\<leftarrow>?tss. case pointAt ts i of Some (Number r) \<Rightarrow> r | _ \<Rightarrow> 0)
        else None)" if "i < 2" for i
    using that by blast
  have "sumValues ?tss 2 ! 1 = Some 9"
    by (subst at) (simp_all add: pointAt_def)
  moreover have "sumValues ?tss 2 ! 0 = None"
    by (subst at) (simp_all add: pointAt_def)
  ultimately show ?thesis by simp
qed

subsection \<open>The dropped first point\<close>

lemma sliceFrom_1: "sliceFrom xs 1 = drop 1 xs"
  by (cases xs) (simp_all add: sliceFrom_def slice_def Let_def)

lemma zip_with_index:
  "map f (zip xs [0..<length xs]) = map (\<lambda>i. f (xs ! i, i)) [0..<length xs]"
  by (rule nth_equalityI) simp_all

lemma composeOxqlData_chart:
  assumes "tables d = t # others" and "table_timeseries t = ts0 # rest"
  shows "composeOxqlData (Some d) =
           Inr \<lparr>chartData =
                  map (\<lambda>i. \<lparr>timestamp = timestamps (points ts0) ! i,
                            datum_value =
                              sumValues (ts0 # rest) (length (timestamps (points ts0))) ! i\<rparr>)
                    [1..<length (timestamps (points ts0))],
                timeseriesCount = length (ts0 # rest)\<rparr>"
  using assms
  by (simp add: composeOxqlData_def Let_def sliceFrom_1 zip_with_index drop_map)

lemma getTimePropsForOxqlQuery_default:
  "\<exists>p. getTimePropsForOxqlQuery startTime endTime defaultDatapoints = Some p
       \<and> getMeanWithinSeconds startTime endTime defaultDatapoints = Some (meanWithinSeconds p)
       \<and> adjustedStart p = startTime - 2 * meanWithinSeconds p * 1000"
  by (simp add: getTimePropsForOxqlQuery_def getMeanWithinSeconds_def defaultDatapoints_def
      Let_def)

text \<open>
  C6. For a query result with at least one timeseries and at least one timestamp,
  \<open>composeOxqlData\<close> returns the pairs of timestamp and summed value from index 1
  onward: the first point is dropped, and the chart has one point fewer than the
  timestamp axis. \<open>getTimePropsForOxqlQuery\<close>, called with the start and end time
  only, returns the mean window of \<open>getMeanWithinSeconds\<close> and a start time moved
  back by twice that many seconds (times are in milliseconds).
\<close>

theorem composeOxqlData_drops_first_point:
  assumes "tables d = t # others" and "table_timeseries t = ts0 # rest"
    and "timestamps (points ts0) \<noteq> []"
  shows "\<exists>c p. composeOxqlData (Some d) = Inr c
           \<and> chartData c =
               map (\<lambda>i. \<lparr>timestamp = timestamps (points ts0) ! i,
                         datum_value =
                           sumValues (ts0 # rest) (length (timestamps (points ts0))) ! i\<rparr>)
                 [1..<length (timestamps (points ts0))]
           \<and> length (chartData c) + 1 = length (timestamps (points ts0))
           \<and> getTimePropsForOxqlQuery startTime endTime defaultDatapoints = Some p
           \<and> getMeanWithinSeconds startTime endTime defaultDatapoints = Some (meanWithinSeconds p)
           \<and> adjustedStart p = startTime - 2 * meanWithinSeconds p * 1000"
proof -
  from assms(3) have "0 < length (timestamps (points ts0))" by simp
  then have "length [1..<length (timestamps (points ts0))] + 1 = length (timestamps (points ts0))"
    by simp
  with composeOxqlData_chart [OF assms(1,2)]
    getTimePropsForOxqlQuery_default [of startTime endTime]
  show ?thesis by auto
qed

theorem composeOxqlData_drops_first_point_witness:
  "tables
      \<lparr>tables = [\<lparr>table_timeseries =
         [\<lparr>points = \<lparr>timestamps = [1000, 2000, 3000],
                     points_values = [\<lparr>values_array = \<lparr>array_values = [Number 1, NullPoint, Number 3]\<rparr>\<rparr>]\<rparr>\<rparr>,
          \<lparr>points = \<lparr>timestamps = [1000, 2000, 3000],
                     points_values = [\<lparr>values_array = \<lparr>array_values = [Number 2, Number 3, NullPoint]\<rparr>\<rparr>]\<rparr>\<rparr>]\<rparr>]\<rparr>
     \<noteq> []
   \<and> [1000, 2000, 3000 :: int] \<noteq> []
   \<and> (\<exists>c p. composeOxqlData (Some
      \<lparr>tables = [\<lparr>table_timeseries =
         [\<lparr>points = \<lparr>timestamps = [1000, 2000, 3000],
                     points_values = [\<lparr>values_array = \<lparr>array_values = [Number 1, NullPoint, Number 3]\<rparr>\<rparr>]\<rparr>\<rparr>,
          \<lparr>points = \<lparr>timestamps = [1000, 2000, 3000],
                     points_values = [\<lparr>values_array = \<lparr>array_values = [Number 2, Number 3, NullPoint]\<rparr>\<rparr>]\<rparr>\<rparr>]\<rparr>]\<rparr>)
          = Inr c
        \<and> chartData c = [\<lparr>timestamp = 2000, datum_value = Some 3\<rparr>,
                         \<lparr>timestamp = 3000, datum_value = Some 3\<rparr>]
        \<and> length (chartData c) + 1 = 3
        \<and> getTimePropsForOxqlQuery 3600000 7200000 defaultDatapoints = Some p
        \<and> meanWithinSeconds p = 60
        \<and> adjustedStart p = 3480000)"
proof -
  let ?ts0 = "\<lparr>points = \<lparr>timestamps = [1000, 2000, 3000],
                     points_values = [\<lparr>values_array = \<lparr>array_values = [Number 1, NullPoint, Number 3]\<rparr>\<rparr>]\<rparr>\<rparr>"
  let ?ts1 = "\<lparr>points = \<lparr>timestamps = [1000, 2000, 3000],
                     points_values = [\<lparr>values_array = \<lparr>array_values = [Number 2, Number 3, NullPoint]\<rparr>\<rparr>]\<rparr>\<rparr>"
  let ?t = "\<lparr>table_timeseries = [?ts0, ?ts1]\<rparr>"
  let ?d = "\<lparr>tables = [?t]\<rparr>"
  have h1: "tables ?d = ?t # []" by simp
  have h2: "table_timeseries ?t = ?ts0 # [?ts1]" by simp
  have h3: "timestamps (points ?ts0) \<noteq> []" by simp
  have summed: "sumValues [?ts0, ?ts1] (Suc (Suc (Suc 0))) = [Some 3, Some 3, Some 3]"
    by (simp add: sumValues_def pointAt_def Let_def)
  have "roundDouble 60 = 60" using roundDouble_int [of 60] by simp
  then have mean: "getMeanWithinSeconds 3600000 7200000 defaultDatapoints = Some 60"
    by (simp add: getMeanWithinSeconds_def differenceInSeconds_def defaultDatapoints_def
        VCPU_KSTAT_INTERVAL_SEC_def Let_def)
  from composeOxqlData_drops_first_point [OF h1 h2 h3, of 3600000 7200000]
  obtain c p where c: "composeOxqlData (Some ?d) = Inr c"
    and cd: "chartData c =
               map (\<lambda>i. \<lparr>timestamp = timestamps (points ?ts0) ! i,
                         datum_value =
                           sumValues (?ts0 # [?ts1]) (length (timestamps (points ?ts0))) ! i\<rparr>)
                 [1..<length (timestamps (points ?ts0))]"
    and len: "length (chartData c) + 1 = length (timestamps (points ?ts0))"
    and p: "getTimePropsForOxqlQuery 3600000 7200000 defaultDatapoints = Some p"
    and m: "getMeanWithinSeconds 3600000 7200000 defaultDatapoints = Some (meanWithinSeconds p)"
    and adj: "adjustedStart p = 3600000 - 2 * meanWithinSeconds p * 1000"
    by blast
  from cd have "chartData c = [\<lparr>timestamp = 2000, datum_value = Some 3\<rparr>,
                         \<lparr>timestamp = 3000, datum_value = Some 3\<rparr>]"
    by (simp add: summed upt_rec)
  moreover from len have "length (chartData c) + 1 = 3" by simp
  moreover from m mean have "meanWithinSeconds p = 60" by simp
  moreover from this adj have "adjustedStart p = 3480000" by simp
  ultimately show ?thesis using c p by auto
qed

subsection \<open>Utilization charts\<close>

text \<open>
  C7. With a core count of 0 the utilization chart has no data, whatever the input:
  the division is guarded by \<open>divisor > 0\<close>. With a positive core count every value
  \<open>v\<close> becomes \<open>v * 100 / (5 * 10^9 * nCPUs)\<close> and every \<open>null\<close> stays \<open>null\<close>.
\<close>

theorem getUtilizationChartProps_guarded:
  "data (getUtilizationChartProps cd 0) = []
   \<and> (0 < nCPUs \<longrightarrow>
        data (getUtilizationChartProps cd nCPUs)
          = map (\<lambda>d. \<lparr>timestamp = timestamp d,
                        datum_value = map_option (\<lambda>v. v * 100 / (5 * 10 ^ 9 * nCPUs)) (datum_value d)\<rparr>)
              cd)"
  by (auto simp: getUtilizationChartProps_def VCPU_KSTAT_INTERVAL_SEC_def Let_def
      split: option.splits)

theorem getUtilizationChartProps_guarded_witness:
  "(0::real) < 2
   \<and> data (getUtilizationChartProps
        [\<lparr>timestamp = 1000, datum_value = Some 5000000000\<rparr>,
         \<lparr>timestamp = 2000, datum_value = None\<rparr>] 2)
     = [\<lparr>timestamp = 1000, datum_value = Some 50\<rparr>, \<lparr>timestamp = 2000, datum_value = None\<rparr>]
   \<and> data (getUtilizationChartProps
        [\<lparr>timestamp = 1000, datum_value = Some 5000000000\<rparr>,
         \<lparr>timestamp = 2000, datum_value = None\<rparr>] 0) = []"
  using getUtilizationChartProps_guarded
    [of "[\<lparr>timestamp = 1000, datum_value = Some 5000000000\<rparr>,
          \<lparr>timestamp = 2000, datum_value = None\<rparr>]" 2]
  by simp

subsection \<open>Byte charts\<close>

text \<open>The scan for the largest value finds the maximum of 0 and the values that are
  not \<open>null\<close>.\<close>

lemma getLargestValue_Max:
  "cd \<noteq> [] \<Longrightarrow>
     getLargestValue cd = Max (insert 0 {v. \<exists>d\<in>set cd. datum_value d = Some v})"
proof -
  assume "cd \<noteq> []"
  let ?vs = "map the (filter (\<lambda>x. x \<noteq> None) (map datum_value cd))"
  have "set ?vs = {v. \<exists>d\<in>set cd. datum_value d = Some v}"
    by (auto simp: image_iff) force
  moreover have "fold max ?vs 0 = Max (set (0 # ?vs))"
    by (rule Max.set_eq_fold [symmetric])
  ultimately show ?thesis using \<open>cd \<noteq> []\<close> by (simp add: getLargestValue_def)
qed

lemma getLargestValue_largest:
  assumes "\<forall>d\<in>set cd. \<forall>v. datum_value d = Some v \<longrightarrow> v \<le> big"
    and "\<exists>d\<in>set cd. datum_value d = Some big" and "0 \<le> big"
  shows "getLargestValue cd = big"
proof -
  from assms(2) have ne: "cd \<noteq> []" by auto
  have fin: "finite (insert 0 {v. \<exists>d\<in>set cd. datum_value d = Some v})"
  proof -
    have "{v. \<exists>d\<in>set cd. datum_value d = Some v} \<subseteq> the ` datum_value ` set cd" by force
    then show ?thesis by (simp add: finite_subset)
  qed
  have "Max (insert 0 {v. \<exists>d\<in>set cd. datum_value d = Some v}) = big"
    using assms by (intro Max_eqI fin) auto
  with getLargestValue_Max [OF ne] show ?thesis by simp
qed

text \<open>
  The logarithms of 2,000,000 and of 1024: the first is between 2.05 and 2.5 times
  the second, because \<open>1024^41 \<le> 2000000^20\<close> and \<open>2000000^2 \<le> 1024^5\<close>.
\<close>

lemma ln_1024_ge_1: "1 \<le> ln (1024::real)"
proof -
  have "exp 1 \<le> (1024::real)" using exp_le by linarith
  then have "ln (exp 1) \<le> ln (1024::real)" by (subst ln_le_cancel_iff) simp_all
  then show ?thesis by simp
qed

lemma ln_2000000_bounds:
  "41 / 20 * ln 1024 \<le> ln (2000000::real)" "ln (2000000::real) \<le> 5 / 2 * ln 1024"
proof -
  have "ln ((1024::real) ^ 41) \<le> ln (2000000 ^ 20)"
    by (subst ln_le_cancel_iff) simp_all
  then have "41 * ln (1024::real) \<le> 20 * ln 2000000"
    by (simp only: ln_realpow zero_less_numeral of_nat_numeral)
  then show "41 / 20 * ln 1024 \<le> ln (2000000::real)" by simp
  have "ln ((2000000::real) ^ 2) \<le> ln (1024 ^ 5)"
    by (subst ln_le_cancel_iff) simp_all
  then have "2 * ln (2000000::real) \<le> 5 * ln 1024"
    by (simp only: ln_realpow zero_less_numeral of_nat_numeral)
  then show "ln (2000000::real) \<le> 5 / 2 * ln 1024" by simp
qed

text \<open>With a \<open>Math.log\<close> that is within a hundredth of the logarithm at the two
  arguments, the rounded quotient lies between 2 and 3.\<close>

lemma getMaxExponent_2000000:
  assumes "\<bar>mathLog 2000000 - ln 2000000\<bar> \<le> 1 / 100"
    and "\<bar>mathLog 1024 - ln 1024\<bar> \<le> 1 / 100"
  shows "getMaxExponent mathLog 2000000 1024 = Some 2"
proof -
  define A B where "A = mathLog 2000000" and "B = mathLog 1024"
  define L where "L = ln (1024::real)"
  note L1 = ln_1024_ge_1 [folded L_def]
  note M = ln_2000000_bounds [folded L_def]
  from assms(2) have "\<bar>B - L\<bar> \<le> 1 / 100" by (simp only: B_def L_def)
  with L1 have B: "L - 1 / 100 \<le> B" "B \<le> L + 1 / 100" "0 < B"
    by linarith+
  from assms(1) have "\<bar>A - ln 2000000\<bar> \<le> 1 / 100" by (simp only: A_def)
  with M have A: "41 / 20 * L - 1 / 100 \<le> A" "A \<le> 5 / 2 * L + 1 / 100"
    by linarith+
  have "201 / 100 * B \<le> A" using A B L1 by linarith
  then have qlo: "201 / 100 \<le> A / B" using B(3) by (simp add: pos_le_divide_eq)
  have "A \<le> 29 / 10 * B" using A B L1 by linarith
  then have qhi: "A / B \<le> 29 / 10" using B(3) by (simp add: pos_divide_le_eq)
  have "\<bar>A / B\<bar> / 2 ^ 53 \<le> 1 / 100"
    using qlo qhi by simp
  with roundDouble_near [of "A / B"] have "\<bar>roundDouble (A / B) - A / B\<bar> \<le> 1 / 100"
    by linarith
  with qlo qhi have "2 \<le> roundDouble (A / B)" "roundDouble (A / B) < 3"
    by linarith+
  then have "\<lfloor>roundDouble (A / B)\<rfloor> = 2" by linarith
  with B(3) show ?thesis by (simp add: getMaxExponent_def A_def B_def)
qed

text \<open>
  C9. When the largest value of the chart data is 2,000,000 (some datum has that
  value and none has a greater one), the scan finds it, the maximum exponent is 2
  (1024^2 is at most 2,000,000, which is below 1024^3), and \<open>getBytesChartProps\<close>
  divides every value that is not \<open>null\<close> by 1024^2 and names the unit MiB. This holds
  for every \<open>Math.log\<close> that is within a hundredth of the natural logarithm at 2,000,000
  and at 1024.
\<close>

theorem getBytesChartProps_selects_MiB:
  assumes "\<forall>d\<in>set cd. \<forall>v. datum_value d = Some v \<longrightarrow> v \<le> 2000000"
    and "\<exists>d\<in>set cd. datum_value d = Some 2000000"
    and "\<bar>mathLog 2000000 - ln 2000000\<bar> \<le> 1 / 100"
    and "\<bar>mathLog 1024 - ln 1024\<bar> \<le> 1 / 100"
  shows "getLargestValue cd = 2000000
         \<and> getMaxExponent mathLog (getLargestValue cd) 1024 = Some 2
         \<and> (1024::real) ^ 2 \<le> 2000000 \<and> (2000000::real) < 1024 ^ 3
         \<and> getBytesChartProps mathLog cd =
             Some \<lparr>data = map (\<lambda>d. d\<lparr>datum_value := map_option (\<lambda>v. v / 1024 ^ 2) (datum_value d)\<rparr>) cd,
                   label = ''(MiB)'',
                   unitForSet = Some ''MiB''\<rparr>"
proof -
  have largest: "getLargestValue cd = 2000000"
    using assms(1,2) by (intro getLargestValue_largest) simp_all
  have unit: "at_index byteUnits 2 = Some ''MiB''"
    by (simp add: at_index_def byteUnits_def)
  have opt: "(case x of None \<Rightarrow> None | Some v \<Rightarrow> Some (v / c)) = map_option (\<lambda>v. v / c) x"
    for x :: "real option" and c
    by (cases x) simp_all
  from largest unit getMaxExponent_2000000 [OF assms(3,4)] show ?thesis
    by (simp add: getBytesChartProps_def Let_def opt)
qed

theorem getBytesChartProps_selects_MiB_witness:
  "list_all (\<lambda>d. case datum_value d of None \<Rightarrow> True | Some v \<Rightarrow> v \<le> 2000000)
      [\<lparr>timestamp = 1000, datum_value = Some 5\<rparr>,
       \<lparr>timestamp = 2000, datum_value = None\<rparr>,
       \<lparr>timestamp = 3000, datum_value = Some 2000000\<rparr>,
       \<lparr>timestamp = 4000, datum_value = Some 1048576\<rparr>]
   \<and> datum_value ([\<lparr>timestamp = 1000, datum_value = Some 5\<rparr>,
       \<lparr>timestamp = 2000, datum_value = None\<rparr>,
       \<lparr>timestamp = 3000, datum_value = Some 2000000\<rparr>,
       \<lparr>timestamp = 4000, datum_value = Some 1048576\<rparr>] ! 2) = Some 2000000
   \<and> \<bar>ln 2000000 - ln (2000000::real)\<bar> \<le> 1 / 100
   \<and> \<bar>ln 1024 - ln (1024::real)\<bar> \<le> 1 / 100
   \<and> getLargestValue [\<lparr>timestamp = 1000, datum_value = Some 5\<rparr>,
       \<lparr>timestamp = 2000, datum_value = None\<rparr>,
       \<lparr>timestamp = 3000, datum_value = Some 2000000\<rparr>,
       \<lparr>timestamp = 4000, datum_value = Some 1048576\<rparr>] = 2000000
   \<and> getBytesChartProps ln [\<lparr>timestamp = 1000, datum_value = Some 5\<rparr>,
       \<lparr>timestamp = 2000, datum_value = None\<rparr>,
       \<lparr>timestamp = 3000, datum_value = Some 2000000\<rparr>,
       \<lparr>timestamp = 4000, datum_value = Some 1048576\<rparr>]
       = Some \<lparr>data = [\<lparr>timestamp = 1000, datum_value = Some (5 / 1048576)\<rparr>,
                      \<lparr>timestamp = 2000, datum_value = None\<rparr>,
                      \<lparr>timestamp = 3000, datum_value = Some (2000000 / 1048576)\<rparr>,
                      \<lparr>timestamp = 4000, datum_value = Some 1\<rparr>],
               label = ''(MiB)'',
               unitForSet = Some ''MiB''\<rparr>"
proof -
  let ?cd = "[\<lparr>timestamp = 1000, datum_value = Some 5\<rparr>,
              \<lparr>timestamp = 2000, datum_value = None\<rparr>,
              \<lparr>timestamp = 3000, datum_value = Some 2000000\<rparr>,
              \<lparr>timestamp = 4000, datum_value = Some 1048576\<rparr>]"
  have h1: "\<forall>d\<in>set ?cd. \<forall>v. datum_value d = Some v \<longrightarrow> v \<le> 2000000" by simp
  have h2: "\<exists>d\<in>set ?cd. datum_value d = Some 2000000" by simp
  have h3: "\<bar>ln 2000000 - ln (2000000::real)\<bar> \<le> 1 / 100" by simp
  have h4: "\<bar>ln 1024 - ln (1024::real)\<bar> \<le> 1 / 100" by simp
  from getBytesChartProps_selects_MiB [OF h1 h2 h3 h4]
  have "getLargestValue ?cd = 2000000"
    and "getBytesChartProps ln ?cd =
             Some \<lparr>data = map (\<lambda>d. d\<lparr>datum_value := map_option (\<lambda>v. v / 1024 ^ 2) (datum_value d)\<rparr>) ?cd,
                   label = ''(MiB)'',
                   unitForSet = Some ''MiB''\<rparr>"
    by blast+
  then show ?thesis by simp
qed

section \<open>Properties of the synthetic metrics generator\<close>

subsection \<open>The generator on doubles\<close>

text \<open>
  The first number drawn in a run seeded with 1699990001740: the product with the
  multiplier and the sum with the increment are both rounded to a multiple of 512, and
  the next seed is 2163226624.
\<close>

lemma rando_next_1699990001740:
  "rando_next (newRando 1699990001740) =
     (2163226624 / 4294967296, (newRando 1699990001740)\<lparr>rando_seed := 2163226624\<rparr>)"
proof -
  have prod: "roundDouble (1664525 * 1699990001740) = 2829675857646273536"
    by (subst roundDouble_large [of 61]) (simp_all add: roundHalfEven_def)
  have sum: "roundDouble (2829675857646273536 + 1013904223) = 2829675858660177920"
    by (subst roundDouble_large [of 61]) (simp_all add: roundHalfEven_def)
  have rem: "jsRemainder 2829675858660177920 (2 ^ 32) = 2163226624"
    by (simp add: jsRemainder_def jsTrunc_def)
  have quot: "roundDouble (2163226624 / 2 ^ 32) = 2163226624 / 2 ^ 32"
    using roundDouble_dyadic [of 2163226624 32] by simp
  show ?thesis
    unfolding rando_next_def newRando_def Let_def
    by (simp only: rando.simps prod sum rem quot) simp
qed

text \<open>The interval between draws for a range of 1800 seconds is 500, and for a range
  of 3750 seconds it is 239: the double quotient \<open>1000 / (3750 / 900)\<close> falls just
  below 240.\<close>

lemma valueIntervalOf_1800: "valueIntervalOf 1800 = Some 500"
proof -
  have "roundDouble 2 = 2" "roundDouble 500 = 500"
    using roundDouble_int [of 2] roundDouble_int [of 500] by simp_all
  then show ?thesis by (simp add: valueIntervalOf_def dataCount_def)
qed

lemma valueIntervalOf_3750: "valueIntervalOf 3750 = Some 239"
proof -
  have t: "roundDouble (3750 / 900) = 4691249611844267 / 2 ^ 50"
    by (subst roundDouble_small [of 2]) (simp_all add: roundHalfEven_def)
  have q: "roundDouble (1000 / (4691249611844267 / 2 ^ 50)) = 8444249301319679 / 2 ^ 45"
    by (subst roundDouble_small [of 7]) (simp_all add: roundHalfEven_def)
  have "\<lfloor>8444249301319679 / 2 ^ 45 :: real\<rfloor> = 239" by simp
  with t q show ?thesis
    unfolding valueIntervalOf_def dataCount_def Let_def
    by (simp only: of_int_numeral of_nat_numeral t q) simp
qed

text \<open>The literals of the normalisation as doubles: \<open>0.33\<close>, \<open>1 - 0.33\<close>, and their
  sum, which rounds to 1.\<close>

lemma double_033: "roundDouble 0.33 = 5944751508129055 / 2 ^ 54"
  by (subst roundDouble_frac [of _ 2]) (simp_all add: roundHalfEven_def)

lemma double_067: "roundDouble (1 - 5944751508129055 / 2 ^ 54) = 6034823500676464 / 2 ^ 53"
  by (subst roundDouble_frac [of _ 1]) (simp_all add: roundHalfEven_def)

lemma double_067_033:
  "roundDouble (6034823500676464 / 2 ^ 53 + 5944751508129055 / 2 ^ 54) = 1"
  by (subst roundDouble_frac [of _ 1]) (simp_all add: roundHalfEven_def)

lemma randomFactor_bounds:
  assumes "0 \<le> r" and "r < 1"
  shows "0 \<le> roundDouble (roundDouble (r * roundDouble (1 - roundDouble 0.33)) + roundDouble 0.33)"
    and "roundDouble (roundDouble (r * roundDouble (1 - roundDouble 0.33)) + roundDouble 0.33) \<le> 1"
proof -
  define c33 :: real where "c33 = 5944751508129055 / 2 ^ 54"
  define c67 :: real where "c67 = 6034823500676464 / 2 ^ 53"
  have c: "roundDouble 0.33 = c33" "roundDouble (1 - c33) = c67" "roundDouble (c67 + c33) = 1"
    unfolding c33_def c67_def by (rule double_033 double_067 double_067_033)+
  have pos: "0 \<le> c33" "0 \<le> c67" by (simp_all add: c33_def c67_def)
  have "roundDouble c67 = c67"
    unfolding c67_def using roundDouble_dyadic [of 6034823500676464 53] by simp
  moreover have "0 \<le> r * c67" "r * c67 \<le> c67"
    using assms pos by (simp_all add: mult_left_le_one_le)
  ultimately have a: "0 \<le> roundDouble (r * c67)" "roundDouble (r * c67) \<le> c67"
    using roundDouble_nonneg [of "r * c67"] roundDouble_mono [of "r * c67" c67] by simp_all
  with pos have "0 \<le> roundDouble (r * c67) + c33" "roundDouble (r * c67) + c33 \<le> c67 + c33"
    by simp_all
  then have "0 \<le> roundDouble (roundDouble (r * c67) + c33)"
    and "roundDouble (roundDouble (r * c67) + c33) \<le> 1"
    using roundDouble_nonneg roundDouble_mono [of "roundDouble (r * c67) + c33" "c67 + c33"] c(3)
    by simp_all
  then show "0 \<le> roundDouble (roundDouble (r * roundDouble (1 - roundDouble 0.33)) + roundDouble 0.33)"
    and "roundDouble (roundDouble (r * roundDouble (1 - roundDouble 0.33)) + roundDouble 0.33) \<le> 1"
    by (simp_all only: c)
qed

subsection \<open>The walk stays at or above zero\<close>

lemma walkOffset_nonneg: "roundDouble 0.72 < random \<Longrightarrow> 0 \<le> walkOffset i random"
proof -
  assume big: "roundDouble 0.72 < random"
  have "0 \<le> roundDouble 0.72" by (rule roundDouble_nonneg) simp
  with big have "0 \<le> random * 50" by simp
  then have "0 \<le> roundDouble (random * 50)" by (rule roundDouble_nonneg)
  then have off: "0 \<le> \<lfloor>roundDouble (random * 50)\<rfloor>" by simp
  have "roundDouble (1 / 2.5) \<le> roundDouble 0.72" "roundDouble (0.375 / 2.5) \<le> roundDouble 0.72"
    by (rule roundDouble_mono; simp)+
  with big have "\<not> random < roundDouble (1 / 2.5)" "\<not> random < roundDouble (0.375 / 2.5)"
    by linarith+
  with off show ?thesis by (simp add: walkOffset_def Let_def)
qed

lemma walkStep_nonneg:
  assumes "0 \<le> prev" and "walkStep vi i prev x r = (v, x', r')"
  shows "0 \<le> v"
proof (cases "Some x = vi")
  case False
  with assms show ?thesis by (simp add: walkStep_def)
next
  case True
  obtain random r1 where nx: "rando_next r = (random, r1)" by (cases "rando_next r")
  with True assms(2)
  have v: "v = (if random > roundDouble 0.72 then roundDouble (prev + walkOffset i random)
                else max (roundDouble (prev - walkOffset i random)) 0)"
    by (simp add: walkStep_def Let_def)
  show ?thesis
  proof (cases "random > roundDouble 0.72")
    case False
    with v show ?thesis by simp
  next
    case True
    with assms(1) walkOffset_nonneg [OF True, of i] have "0 \<le> prev + walkOffset i random"
      by simp
    then have "0 \<le> roundDouble (prev + walkOffset i random)" by (rule roundDouble_nonneg)
    with True v show ?thesis by simp
  qed
qed

lemma walk_nonneg:
  "0 \<le> prev \<Longrightarrow> v \<in> set (walk vi n i prev x r) \<Longrightarrow> 0 \<le> v"
proof (induction n arbitrary: i prev x r)
  case 0
  then show ?case by simp
next
  case (Suc n)
  obtain v1 x1 r1 where st: "walkStep vi i prev x r = (v1, x1, r1)"
    by (cases "walkStep vi i prev x r") auto
  from walkStep_nonneg [OF Suc.prems(1) st] have v1: "0 \<le> v1" .
  from Suc.prems(2) st have "v = v1 \<or> v \<in> set (walk vi n (Suc i) v1 x1 r1)" by simp
  with v1 Suc.IH [OF v1] show ?case by auto
qed

lemma length_walk: "length (walk vi n i prev x r) = n"
  by (induction n arbitrary: i prev x r) (auto split: prod.splits)

lemma generatedValues_shape:
  "\<exists>rest. generatedValues env metricName startTime endTime = 500 # rest
       \<and> length rest = 999 \<and> (\<forall>v\<in>set rest. 0 \<le> v)"
  unfolding generatedValues_def Let_def dataCount_def
  by (auto simp: length_walk intro: walk_nonneg [of 500])

lemma mathMax_Cons: "mathMax (v # vs) = Some (Max (set (v # vs)))"
  using Max.set_eq_fold [of v vs] by simp

text \<open>A value of the walk over the maximum, times a capacity that is a double, times
  a factor of at most 1, every operation rounded, stays within the capacity.\<close>

lemma scaled_in_range:
  fixes val m cap rf :: real
  assumes "0 \<le> val" "val \<le> m" "0 < m" "0 \<le> cap" "roundDouble cap = cap" "0 \<le> rf" "rf \<le> 1"
  shows "0 \<le> roundDouble (roundDouble (roundDouble (val / m) * cap) * rf)"
    and "roundDouble (roundDouble (roundDouble (val / m) * cap) * rf) \<le> cap"
proof -
  have one: "roundDouble 1 = 1" using roundDouble_int [of 1] by simp
  from assms have "0 \<le> val / m" "val / m \<le> 1" by simp_all
  then have q: "0 \<le> roundDouble (val / m)" "roundDouble (val / m) \<le> 1"
    using roundDouble_nonneg [of "val / m"] roundDouble_mono [of "val / m" 1] one by simp_all
  with assms(4) have "0 \<le> roundDouble (val / m) * cap" "roundDouble (val / m) * cap \<le> cap"
    by (simp_all add: mult_left_le_one_le)
  then have p: "0 \<le> roundDouble (roundDouble (val / m) * cap)"
    "roundDouble (roundDouble (val / m) * cap) \<le> cap"
    using roundDouble_nonneg [of "roundDouble (val / m) * cap"]
      roundDouble_mono [of "roundDouble (val / m) * cap" cap] assms(5) by simp_all
  with assms(6,7) have "0 \<le> roundDouble (roundDouble (val / m) * cap) * rf"
    "roundDouble (roundDouble (val / m) * cap) * rf \<le> cap"
    using mult_right_le_one_le [of "roundDouble (roundDouble (val / m) * cap)" rf]
    by simp_all
  then show "0 \<le> roundDouble (roundDouble (roundDouble (val / m) * cap) * rf)"
    and "roundDouble (roundDouble (roundDouble (val / m) * cap) * rf) \<le> cap"
    using roundDouble_nonneg [of "roundDouble (roundDouble (val / m) * cap) * rf"]
      roundDouble_mono [of "roundDouble (roundDouble (val / m) * cap) * rf" cap] assms(5)
    by simp_all
qed

lemma generateUtilization_bounds:
  assumes "0 \<le> selectedCapacity env metricName sleds"
    and "roundDouble (selectedCapacity env metricName sleds) = selectedCapacity env metricName sleds"
    and "0 \<le> mathRandom env" and "mathRandom env < 1"
  shows "length (generateUtilization env metricName startTime endTime sleds) = 1000
         \<and> list_all (\<lambda>v. 0 \<le> v \<and> v \<le> selectedCapacity env metricName sleds
                          \<and> (metricName = cpus_provisioned \<longrightarrow> v \<in> \<int>))
              (generateUtilization env metricName startTime endTime sleds)"
proof -
  let ?cap = "selectedCapacity env metricName sleds"
  define rf where
    "rf = roundDouble (roundDouble (mathRandom env * roundDouble (1 - roundDouble 0.33))
                         + roundDouble 0.33)"
  obtain rest where vals: "generatedValues env metricName startTime endTime = 500 # rest"
    and len: "length rest = 999" and nonneg: "\<forall>v\<in>set rest. 0 \<le> v"
    using generatedValues_shape by blast
  define m where "m = Max (set (500 # rest))"
  have mx: "mathMax (500 # rest) = Some m" unfolding m_def by (rule mathMax_Cons)
  have "500 \<le> m" unfolding m_def by (intro Max_ge) simp_all
  then have mpos: "0 < m" by linarith
  have rf: "0 \<le> rf" "rf \<le> 1"
    unfolding rf_def by (rule randomFactor_bounds [OF assms(3,4)])+
  define scaled where "scaled val = roundDouble (roundDouble (roundDouble (val / m) * ?cap) * rf)"
    for val
  have one: "0 \<le> (if metricName = cpus_provisioned then real_of_int \<lfloor>scaled val\<rfloor> else scaled val)
        \<and> (if metricName = cpus_provisioned then real_of_int \<lfloor>scaled val\<rfloor> else scaled val) \<le> ?cap
        \<and> (metricName = cpus_provisioned \<longrightarrow>
              (if metricName = cpus_provisioned then real_of_int \<lfloor>scaled val\<rfloor> else scaled val) \<in> \<int>)"
    if "val \<in> set (500 # rest)" for val
  proof -
    from that nonneg have v0: "0 \<le> val" by auto
    from that have vm: "val \<le> m" unfolding m_def by (intro Max_ge) simp_all
    from scaled_in_range [OF v0 vm mpos assms(1,2) rf]
    have b: "0 \<le> scaled val" "scaled val \<le> ?cap" unfolding scaled_def by simp_all
    from b(1) have "0 \<le> real_of_int \<lfloor>scaled val\<rfloor>" by simp
    moreover have "real_of_int \<lfloor>scaled val\<rfloor> \<le> ?cap"
      using b(2) of_int_floor_le [of "scaled val"] by linarith
    ultimately show ?thesis
      using b by (cases "metricName = cpus_provisioned") simp_all
  qed
  have gen: "generateUtilization env metricName startTime endTime sleds =
     map (\<lambda>val. if metricName = cpus_provisioned then real_of_int \<lfloor>scaled val\<rfloor> else scaled val)
       (500 # rest)"
    unfolding generateUtilization_def Let_def vals mx scaled_def rf_def by simp
  from len have "length (generateUtilization env metricName startTime endTime sleds) = 1000"
    unfolding gen by simp
  moreover have "list_all (\<lambda>v. 0 \<le> v \<and> v \<le> ?cap \<and> (metricName = cpus_provisioned \<longrightarrow> v \<in> \<int>))
              (generateUtilization env metricName startTime endTime sleds)"
    unfolding gen list_all_iff using one by auto
  ultimately show ?thesis by simp
qed

text \<open>
  C8. Let the capacity of the cluster, as \<open>totalCapacity\<close> reports it for the sleds,
  be made of doubles none of which is negative, and let \<open>Math.random()\<close> return a
  number in [0, 1). Then \<open>generateUtilization\<close> returns 1000 values, each at least 0
  and at most the capacity of the metric kind: the cpu count for \<open>cpus_provisioned\<close>,
  the disk space in TiB times \<open>1024^4\<close> bytes for \<open>virtual_disk_space_provisioned\<close>, the
  memory in GiB times \<open>1024^3\<close> bytes for \<open>ram_provisioned\<close>. For \<open>cpus_provisioned\<close>
  every value is a whole number; the other kinds are not floored.
\<close>

theorem generateUtilization_within_capacity:
  assumes "totalCapacity env
             (map (\<lambda>s. \<lparr>usableHardwareThreads = usable_hardware_threads s,
                         usablePhysicalRam = usable_physical_ram s\<rparr>) sleds) = cpty"
    and "0 \<le> cpu cpty" and "0 \<le> disk_tib cpty" and "0 \<le> ram_gib cpty"
    and "roundDouble (cpu cpty) = cpu cpty" and "roundDouble (disk_tib cpty) = disk_tib cpty"
    and "roundDouble (ram_gib cpty) = ram_gib cpty"
    and "0 \<le> mathRandom env" and "mathRandom env < 1"
  shows "length (generateUtilization env metricName startTime endTime sleds) = 1000
         \<and> list_all
              (\<lambda>v. 0 \<le> v
                  \<and> v \<le> (case metricName of
                             cpus_provisioned \<Rightarrow> cpu cpty
                           | virtual_disk_space_provisioned \<Rightarrow> disk_tib cpty * 1024 ^ 4
                           | ram_provisioned \<Rightarrow> ram_gib cpty * 1024 ^ 3)
                  \<and> (metricName = cpus_provisioned \<longrightarrow> v \<in> \<int>))
              (generateUtilization env metricName startTime endTime sleds)"
proof -
  have units: "TiB = 2 ^ 40" "GiB = 2 ^ 30" "(1024::real) ^ 4 = 2 ^ 40" "(1024::real) ^ 3 = 2 ^ 30"
    by (simp_all add: TiB_def GiB_def)
  have cap: "selectedCapacity env metricName sleds =
               (case metricName of
                  cpus_provisioned \<Rightarrow> cpu cpty
                | virtual_disk_space_provisioned \<Rightarrow> disk_tib cpty * 1024 ^ 4
                | ram_provisioned \<Rightarrow> ram_gib cpty * 1024 ^ 3)"
    using assms(1,6,7)
    by (cases metricName) (simp_all only: selectedCapacity_def Let_def units roundDouble_scale
          system_metric_name.case system_metric_name.distinct if_True if_False refl)
  have nonneg: "0 \<le> selectedCapacity env metricName sleds"
    unfolding cap using assms(2-4) by (cases metricName) simp_all
  have dbl: "roundDouble (selectedCapacity env metricName sleds)
               = selectedCapacity env metricName sleds"
    unfolding cap using assms(5-7)
    by (cases metricName) (simp_all only: units roundDouble_scale system_metric_name.case)
  from generateUtilization_bounds [OF nonneg dbl assms(8,9)] show ?thesis
    unfolding cap .
qed

subsection \<open>A run over half an hour\<close>

text \<open>While the counter is below the interval the walk repeats its value.\<close>

lemma walk_idle_append:
  "x + int n \<le> vi \<Longrightarrow>
     walk (Some vi) (n + k) i prev x r
       = replicate n prev @ walk (Some vi) k (i + n) prev (x + int n) r"
proof (induction n arbitrary: i x)
  case 0
  then show ?case by simp
next
  case (Suc n)
  then have "Some x \<noteq> Some vi" and "x + 1 + int n \<le> vi" by simp_all
  with Suc.IH [of "x + 1" "Suc i"] show ?case
    by (simp add: walkStep_def ac_simps)
qed

lemma walk_idle: "x + int n \<le> vi \<Longrightarrow> walk (Some vi) n i prev x r = replicate n prev"
  using walk_idle_append [of x n vi 0 i prev r] by simp

text \<open>
  With an interval of 500 the loop draws once, at index 501, where the threshold is 1:
  the first 501 values are the start value and the other 499 the value after the draw.
\<close>

lemma walk_single_draw:
  assumes "rando_next r = (q, r')" and "\<not> roundDouble 0.72 < q"
  shows "500 # walk (Some 500) 999 1 500 0 r
           = replicate 501 500 @ replicate 499 (max (roundDouble (500 - walkOffset 501 q)) 0)"
proof -
  let ?v = "max (roundDouble (500 - walkOffset 501 q)) 0"
  have "walk (Some 500) (500 + 499) 1 500 0 r
          = replicate 500 500 @ walk (Some 500) 499 (1 + 500) 500 (0 + int 500) r"
    by (rule walk_idle_append) simp
  then have first: "walk (Some 500) 999 1 500 0 r
          = replicate 500 500 @ walk (Some 500) 499 501 500 500 r"
    by simp
  have "walk (Some 500) (Suc n) 501 500 500 r = ?v # walk (Some 500) n (Suc 501) ?v 0 r'" for n
    using assms by (simp add: walkStep_def Let_def)
  from this [of 498] have draw: "walk (Some 500) 499 501 500 500 r
          = ?v # walk (Some 500) 498 502 ?v 0 r'"
    by simp
  have rest: "walk (Some 500) 498 502 ?v 0 r' = replicate 498 ?v"
    by (rule walk_idle) simp
  have r1: "replicate 501 c = c # replicate 500 c" for c :: real
    using replicate_Suc [of 500 c] by simp
  have r2: "replicate 499 c = c # replicate 498 c" for c :: real
    using replicate_Suc [of 498 c] by simp
  show ?thesis by (simp only: first draw rest r1 r2 append_Cons)
qed

lemma rando_next_1699990001617:
  "rando_next (newRando 1699990001617) =
     (1958490112 / 4294967296, (newRando 1699990001617)\<lparr>rando_seed := 1958490112\<rparr>)"
proof -
  have prod: "roundDouble (1664525 * 1699990001617) = 2829675857441537024"
    by (subst roundDouble_large [of 61]) (simp_all add: roundHalfEven_def)
  have sum: "roundDouble (2829675857441537024 + 1013904223) = 2829675858455441408"
    by (subst roundDouble_large [of 61]) (simp_all add: roundHalfEven_def)
  have rem: "jsRemainder 2829675858455441408 (2 ^ 32) = 1958490112"
    by (simp add: jsRemainder_def jsTrunc_def)
  have quot: "roundDouble (1958490112 / 2 ^ 32) = 1958490112 / 2 ^ 32"
    using roundDouble_dyadic [of 1958490112 32] by simp
  show ?thesis
    unfolding rando_next_def newRando_def Let_def
    by (simp only: rando.simps prod sum rem quot) simp
qed

text \<open>The doubles nearest to 0.72 and to 0.4, and the two draws: the first number,
  0.5037, gives the offset 25 and the second, 0.4560, the offset 22; neither is
  above 0.72 nor below 0.4, so the offset is subtracted.\<close>

lemma double_072: "roundDouble 0.72 = 6485183463413514 / 2 ^ 53"
  by (subst roundDouble_frac [of _ 1]) (simp_all add: roundHalfEven_def)

lemma double_04: "roundDouble (1 / 2.5) = 3602879701896397 / 2 ^ 53"
  by (subst roundDouble_frac [of _ 2]) (simp_all add: roundHalfEven_def)

lemma walkOffset_draws:
  "walkOffset 501 (2163226624 / 4294967296) = 25"
  "walkOffset 501 (1958490112 / 4294967296) = 22"
proof -
  have c04: "roundDouble (2 / 5) = 3602879701896397 / 9007199254740992"
    using double_04 by simp
  have d1: "roundDouble (26406575 / 1048576) = 26406575 / 1048576"
    using roundDouble_dyadic [of 26406575 20] by simp
  have d2: "roundDouble (11953675 / 524288) = 11953675 / 524288"
    using roundDouble_dyadic [of 11953675 19] by simp
  show "walkOffset 501 (2163226624 / 4294967296) = 25"
    by (simp add: walkOffset_def Let_def c04 d1)
  show "walkOffset 501 (1958490112 / 4294967296) = 22"
    by (simp add: walkOffset_def Let_def c04 d2)
qed

lemma generatedValues_half_hour:
  assumes "now env = 1700000000000"
  shows "generatedValues env cpus_provisioned 1699990000000 1699991800000
           = replicate 501 500 @ replicate 499 475"
    and "generatedValues env ram_provisioned 1699990000000 1699991800000
           = replicate 501 500 @ replicate 499 478"
proof -
  have diff: "\<bar>differenceInSeconds 1699990000000 1699991800000\<bar> = 1800"
    by (simp add: differenceInSeconds_def)
  have ints: "roundDouble 475 = 475" "roundDouble 478 = 478"
    using roundDouble_int [of 475] roundDouble_int [of 478] by simp_all
  have below: "\<not> roundDouble 0.72 < 2163226624 / 4294967296"
    "\<not> roundDouble 0.72 < 1958490112 / 4294967296"
    by (simp_all only: double_072) simp_all
  have "generatedValues env cpus_provisioned 1699990000000 1699991800000
          = 500 # walk (Some 500) 999 1 500 0 (newRando 1699990001740)"
    using assms by (simp add: generatedValues_def Let_def diff valueIntervalOf_1800 dataCount_def)
  also have "\<dots> = replicate 501 500 @ replicate 499 (max (roundDouble (500 - 25)) 0)"
    by (simp only: walk_single_draw [OF rando_next_1699990001740 below(1)] walkOffset_draws)
  finally show "generatedValues env cpus_provisioned 1699990000000 1699991800000
           = replicate 501 500 @ replicate 499 475" by (simp add: ints)
  have "generatedValues env ram_provisioned 1699990000000 1699991800000
          = 500 # walk (Some 500) 999 1 500 0 (newRando 1699990001617)"
    using assms by (simp add: generatedValues_def Let_def diff valueIntervalOf_1800 dataCount_def)
  also have "\<dots> = replicate 501 500 @ replicate 499 (max (roundDouble (500 - 22)) 0)"
    by (simp only: walk_single_draw [OF rando_next_1699990001617 below(2)] walkOffset_draws)
  finally show "generatedValues env ram_provisioned 1699990000000 1699991800000
           = replicate 501 500 @ replicate 499 478" by (simp add: ints)
qed

text \<open>The random factor for \<open>Math.random() = 1/2\<close>, and the scaled values of the run:
  \<open>85.12\<close> and \<open>80.864\<close> cpus, floored, and \<open>365587616235.52\<close> bytes of memory.\<close>

lemma randomFactor_half:
  "roundDouble (roundDouble (1 / 2 * roundDouble (1 - roundDouble 0.33)) + roundDouble 0.33)
     = 748723438050345 / 2 ^ 50"
proof -
  have half: "roundDouble (1 / 2 * (6034823500676464 / 2 ^ 53)) = 6034823500676464 / 2 ^ 54"
    using roundDouble_dyadic [of 6034823500676464 54] by simp
  have sum: "roundDouble (6034823500676464 / 2 ^ 54 + 5944751508129055 / 2 ^ 54)
               = 748723438050345 / 2 ^ 50"
    by (subst roundDouble_frac [of _ 1]) (simp_all add: roundHalfEven_def)
  show ?thesis by (simp only: double_033 double_067 half sum)
qed

lemma scaled_values:
  "\<lfloor>roundDouble (roundDouble (roundDouble (500 / 500) * 128) * (748723438050345 / 2 ^ 50))\<rfloor> = 85"
  "\<lfloor>roundDouble (roundDouble (roundDouble (475 / 500) * 128) * (748723438050345 / 2 ^ 50))\<rfloor> = 80"
  "roundDouble (roundDouble (roundDouble (500 / 500) * 549755813888) * (748723438050345 / 2 ^ 50))
     = 748723438050345 / 2 ^ 11"
proof -
  have one: "roundDouble (500 / 500) = 1" using roundDouble_int [of 1] by simp
  have cap: "roundDouble (1 * 128) = 128" "roundDouble (1 * 549755813888) = 549755813888"
    using roundDouble_int [of 128] roundDouble_int [of 549755813888] by simp_all
  have full: "roundDouble (128 * (748723438050345 / 2 ^ 50)) = 748723438050345 / 2 ^ 43"
    using roundDouble_dyadic [of 748723438050345 43] by simp
  have "\<lfloor>748723438050345 / 2 ^ 43 :: real\<rfloor> = 85" by simp
  then show "\<lfloor>roundDouble (roundDouble (roundDouble (500 / 500) * 128)
                 * (748723438050345 / 2 ^ 50))\<rfloor> = 85"
    by (simp only: one cap full)
  have q: "roundDouble (475 / 500) = 4278419646001971 / 2 ^ 52"
    by (subst roundDouble_frac [of _ 1]) (simp_all add: roundHalfEven_def)
  have p: "roundDouble (4278419646001971 / 2 ^ 52 * 128) = 4278419646001971 / 2 ^ 45"
    using roundDouble_dyadic [of 4278419646001971 45] by simp
  have v: "roundDouble (4278419646001971 / 2 ^ 45 * (748723438050345 / 2 ^ 50))
             = 2845149064591311 / 2 ^ 45"
    by (subst roundDouble_small [of 6]) (simp_all add: roundHalfEven_def)
  have "\<lfloor>2845149064591311 / 2 ^ 45 :: real\<rfloor> = 80" by simp
  then show "\<lfloor>roundDouble (roundDouble (roundDouble (475 / 500) * 128)
                 * (748723438050345 / 2 ^ 50))\<rfloor> = 80"
    by (simp only: q p v)
  have "roundDouble (549755813888 * (748723438050345 / 2 ^ 50)) = 748723438050345 / 2 ^ 11"
    using roundDouble_dyadic [of 748723438050345 11] by simp
  then show "roundDouble (roundDouble (roundDouble (500 / 500) * 549755813888)
                 * (748723438050345 / 2 ^ 50)) = 748723438050345 / 2 ^ 11"
    by (simp only: one cap)
qed

text \<open>
  The witness is a run over the half hour from 1699990000000 to 1699991800000, on a
  clock at 1700000000000, with one sled of 128 threads and 512 GiB, a capacity of 128
  cpus, 32 TiB and 512 GiB, and \<open>Math.random()\<close> returning one half. The walk draws
  once. The cpu values are 85 up to index 500 and 80 after it; the first memory value
  is 748723438050345 / 2048, which is not whole.
\<close>

theorem generateUtilization_within_capacity_witness:
  "totalCapacity
      \<lparr>now = 1700000000000, mathRandom = 1 / 2,
       totalCapacity = (\<lambda>ss. \<lparr>cpu = sum_list (map usableHardwareThreads ss), disk_tib = 32,
                               ram_gib = sum_list (map usablePhysicalRam ss) / 1024 ^ 3\<rparr>)\<rparr>
      (map (\<lambda>s. \<lparr>usableHardwareThreads = usable_hardware_threads s,
                  usablePhysicalRam = usable_physical_ram s\<rparr>)
         [\<lparr>usable_hardware_threads = 128, usable_physical_ram = 549755813888\<rparr>])
     = \<lparr>cpu = 128, disk_tib = 32, ram_gib = 512\<rparr>
   \<and> (0::real) \<le> 128 \<and> (0::real) \<le> 32 \<and> (0::real) \<le> 512
   \<and> roundDouble 128 = 128 \<and> roundDouble 32 = 32 \<and> roundDouble 512 = 512
   \<and> (0::real) \<le> 1 / 2 \<and> (1 / 2 :: real) < 1
   \<and> length (generateUtilization
        \<lparr>now = 1700000000000, mathRandom = 1 / 2,
         totalCapacity = (\<lambda>ss. \<lparr>cpu = sum_list (map usableHardwareThreads ss), disk_tib = 32,
                                 ram_gib = sum_list (map usablePhysicalRam ss) / 1024 ^ 3\<rparr>)\<rparr>
        cpus_provisioned 1699990000000 1699991800000
        [\<lparr>usable_hardware_threads = 128, usable_physical_ram = 549755813888\<rparr>]) = 1000
   \<and> list_all (\<lambda>v. 0 \<le> v \<and> v \<le> 128 \<and> v \<in> \<int>)
       (generateUtilization
        \<lparr>now = 1700000000000, mathRandom = 1 / 2,
         totalCapacity = (\<lambda>ss. \<lparr>cpu = sum_list (map usableHardwareThreads ss), disk_tib = 32,
                                 ram_gib = sum_list (map usablePhysicalRam ss) / 1024 ^ 3\<rparr>)\<rparr>
        cpus_provisioned 1699990000000 1699991800000
        [\<lparr>usable_hardware_threads = 128, usable_physical_ram = 549755813888\<rparr>])
   \<and> list_all (\<lambda>v. 0 \<le> v \<and> v \<le> 35184372088832)
       (generateUtilization
        \<lparr>now = 1700000000000, mathRandom = 1 / 2,
         totalCapacity = (\<lambda>ss. \<lparr>cpu = sum_list (map usableHardwareThreads ss), disk_tib = 32,
                                 ram_gib = sum_list (map usablePhysicalRam ss) / 1024 ^ 3\<rparr>)\<rparr>
        virtual_disk_space_provisioned 1699990000000 1699991800000
        [\<lparr>usable_hardware_threads = 128, usable_physical_ram = 549755813888\<rparr>])
   \<and> list_all (\<lambda>v. 0 \<le> v \<and> v \<le> 549755813888)
       (generateUtilization
        \<lparr>now = 1700000000000, mathRandom = 1 / 2,
         totalCapacity = (\<lambda>ss. \<lparr>cpu = sum_list (map usableHardwareThreads ss), disk_tib = 32,
                                 ram_gib = sum_list (map usablePhysicalRam ss) / 1024 ^ 3\<rparr>)\<rparr>
        ram_provisioned 1699990000000 1699991800000
        [\<lparr>usable_hardware_threads = 128, usable_physical_ram = 549755813888\<rparr>])
   \<and> generateUtilization
        \<lparr>now = 1700000000000, mathRandom = 1 / 2,
         totalCapacity = (\<lambda>ss. \<lparr>cpu = sum_list (map usableHardwareThreads ss), disk_tib = 32,
                                 ram_gib = sum_list (map usablePhysicalRam ss) / 1024 ^ 3\<rparr>)\<rparr>
        cpus_provisioned 1699990000000 1699991800000
        [\<lparr>usable_hardware_threads = 128, usable_physical_ram = 549755813888\<rparr>]
       = replicate 501 85 @ replicate 499 80
   \<and> hd (generateUtilization
        \<lparr>now = 1700000000000, mathRandom = 1 / 2,
         totalCapacity = (\<lambda>ss. \<lparr>cpu = sum_list (map usableHardwareThreads ss), disk_tib = 32,
                                 ram_gib = sum_list (map usablePhysicalRam ss) / 1024 ^ 3\<rparr>)\<rparr>
        ram_provisioned 1699990000000 1699991800000
        [\<lparr>usable_hardware_threads = 128, usable_physical_ram = 549755813888\<rparr>])
       = 748723438050345 / 2048"
proof -
  define env where "env =
     \<lparr>now = 1700000000000, mathRandom = 1 / 2,
      totalCapacity = (\<lambda>ss. \<lparr>cpu = sum_list (map usableHardwareThreads ss), disk_tib = 32,
                              ram_gib = sum_list (map usablePhysicalRam ss) / 1024 ^ 3\<rparr>)\<rparr>"
  define sleds where "sleds = [\<lparr>usable_hardware_threads = 128, usable_physical_ram = 549755813888\<rparr>]"
  let ?cpty = "\<lparr>cpu = 128, disk_tib = 32, ram_gib = 512\<rparr>"
  have h1: "totalCapacity env
             (map (\<lambda>s. \<lparr>usableHardwareThreads = usable_hardware_threads s,
                         usablePhysicalRam = usable_physical_ram s\<rparr>) sleds) = ?cpty"
    by (simp add: env_def sleds_def)
  have h2: "0 \<le> cpu ?cpty" and h3: "0 \<le> disk_tib ?cpty" and h4: "0 \<le> ram_gib ?cpty"
    by simp_all
  have dbl: "roundDouble 128 = 128" "roundDouble 32 = 32" "roundDouble 512 = 512"
    using roundDouble_int [of 128] roundDouble_int [of 32] roundDouble_int [of 512] by simp_all
  then have h5: "roundDouble (cpu ?cpty) = cpu ?cpty"
    and h6: "roundDouble (disk_tib ?cpty) = disk_tib ?cpty"
    and h7: "roundDouble (ram_gib ?cpty) = ram_gib ?cpty"
    by simp_all
  have h8: "0 \<le> mathRandom env" and h9: "mathRandom env < 1"
    and clock: "now env = 1700000000000" and half: "mathRandom env = 1 / 2"
    by (simp_all add: env_def)
  note inst = generateUtilization_within_capacity [OF h1 h2 h3 h4 h5 h6 h7 h8 h9,
      of _ 1699990000000 1699991800000]
  from inst [of cpus_provisioned]
  have a: "length (generateUtilization env cpus_provisioned 1699990000000 1699991800000 sleds) = 1000"
    and b: "list_all (\<lambda>v. 0 \<le> v \<and> v \<le> 128 \<and> v \<in> \<int>)
       (generateUtilization env cpus_provisioned 1699990000000 1699991800000 sleds)"
    by simp_all
  from inst [of virtual_disk_space_provisioned]
  have c: "list_all (\<lambda>v. 0 \<le> v \<and> v \<le> 35184372088832)
       (generateUtilization env virtual_disk_space_provisioned 1699990000000 1699991800000 sleds)"
    by simp
  from inst [of ram_provisioned]
  have d: "list_all (\<lambda>v. 0 \<le> v \<and> v \<le> 549755813888)
       (generateUtilization env ram_provisioned 1699990000000 1699991800000 sleds)"
    by simp
  have "roundDouble 549755813888 = 549755813888"
    using roundDouble_int [of 549755813888] by simp
  then have caps: "selectedCapacity env cpus_provisioned sleds = 128"
    "selectedCapacity env ram_provisioned sleds = 549755813888"
    using h1 by (simp_all add: selectedCapacity_def GiB_def)
  have mx: "the (mathMax (replicate 501 500 @ replicate 499 c)) = 500" if "c \<le> 500" for c :: real
  proof -
    have "replicate 501 (500::real) @ replicate 499 c = 500 # (replicate 500 500 @ replicate 499 c)"
      using replicate_Suc [of 500 "500::real"] by simp
    moreover have "Max (set (500 # (replicate 500 500 @ replicate 499 c))) = 500"
      using that by (simp add: max_def)
    ultimately show ?thesis by (simp only: mathMax_Cons option.sel)
  qed
  have e: "generateUtilization env cpus_provisioned 1699990000000 1699991800000 sleds
             = replicate 501 85 @ replicate 499 80"
    unfolding generateUtilization_def Let_def generatedValues_half_hour(1) [OF clock] caps half
    by (simp only: mx [of 475, simplified] randomFactor_half map_append map_replicate
        scaled_values if_True refl) simp
  have r1: "replicate 501 c = c # replicate 500 c" for c :: real
    using replicate_Suc [of 500 c] by simp
  have f: "hd (generateUtilization env ram_provisioned 1699990000000 1699991800000 sleds)
             = 748723438050345 / 2048"
    unfolding generateUtilization_def Let_def generatedValues_half_hour(2) [OF clock] caps half
    by (simp only: mx [of 478, simplified] randomFactor_half,
        simp only: map_append map_replicate scaled_values system_metric_name.distinct if_False,
        simp only: r1 append_Cons list.sel,
        simp)
  from h1 dbl a b c d e f show ?thesis unfolding env_def sleds_def by (intro conjI) simp_all
qed

end
